theory Spec2Isabelle
  imports Complex_Main "HOL-Library.Word"
begin

unbundle bit_operations_syntax

section \<open>Bytes, Python integers and exceptions\<close>

type_synonym byte = "8 word"
type_synonym bytes = "byte list"

text \<open>The exceptions the modelled code can raise.\<close>

datatype error =
  IncompleteReadError | OverflowError | ValueError | KeyError | IndexError | TypeError
  | ZeroDivisionError

text \<open>\<^verbatim>\<open>int.from_bytes(b, "little")\<close>, \<^verbatim>\<open>int.from_bytes(b, "big")\<close> and the signed
  little-endian variant.\<close>

primrec int_from_bytes_little :: "bytes \<Rightarrow> int" where
  "int_from_bytes_little [] = 0"
| "int_from_bytes_little (b # bs) = uint b + 256 * int_from_bytes_little bs"

definition int_from_bytes_big :: "bytes \<Rightarrow> int" where
  "int_from_bytes_big bs = int_from_bytes_little (rev bs)"

definition int_from_bytes_little_signed :: "bytes \<Rightarrow> int" where
  "int_from_bytes_little_signed bs =
     (let u = int_from_bytes_little bs in
      if bs \<noteq> [] \<and> 2 ^ (8 * length bs - 1) \<le> u then u - 2 ^ (8 * length bs) else u)"

text \<open>\<^verbatim>\<open>int.to_bytes(v, n, "little")\<close>: the \<open>n\<close> low bytes of \<open>v\<close>; Python raises
  OverflowError when \<open>v\<close> does not fit.\<close>

primrec le_bytes :: "nat \<Rightarrow> int \<Rightarrow> bytes" where
  "le_bytes 0 v = []"
| "le_bytes (Suc n) v = word_of_int v # le_bytes n (v div 256)"

definition int_to_bytes_little :: "int \<Rightarrow> nat \<Rightarrow> error + bytes" where
  "int_to_bytes_little v n =
     (if 0 \<le> v \<and> v < 2 ^ (8 * n) then Inr (le_bytes n v) else Inl OverflowError)"

definition int_to_bytes_little_signed :: "int \<Rightarrow> nat \<Rightarrow> error + bytes" where
  "int_to_bytes_little_signed v n =
     (if 0 < n \<and> - (2 ^ (8 * n - 1)) \<le> v \<and> v < 2 ^ (8 * n - 1)
      then Inr (le_bytes n v) else Inl OverflowError)"

definition int_to_bytes_big :: "int \<Rightarrow> nat \<Rightarrow> error + bytes" where
  "int_to_bytes_big v n =
     (if 0 \<le> v \<and> v < 2 ^ (8 * n) then Inr (rev (le_bytes n v)) else Inl OverflowError)"

text \<open>\<^verbatim>\<open>binascii.crc32\<close>: the CRC-32 of IEEE 802.3 (reflected polynomial
  \<open>0xEDB88320\<close>, initial value and final XOR \<open>0xFFFFFFFF\<close>), bit by bit.\<close>

definition crc32_bit :: "32 word \<Rightarrow> 32 word" where
  "crc32_bit c = (if bit c 0 then drop_bit 1 c XOR 0xEDB88320 else drop_bit 1 c)"

definition crc32_byte :: "32 word \<Rightarrow> byte \<Rightarrow> 32 word" where
  "crc32_byte c b = (crc32_bit ^^ 8) (c XOR ucast b)"

definition crc32 :: "bytes \<Rightarrow> int" where
  "crc32 bs = uint (foldl crc32_byte 0xFFFFFFFF bs XOR 0xFFFFFFFF)"

section \<open>Constants of the proxy\<close>

definition CBC_PADDING :: int where "CBC_PADDING = 16"
definition PADDING_FILLER :: bytes where "PADDING_FILLER = [0x04, 0x00, 0x00, 0x00]"
definition MIN_MSG_LEN :: int where "MIN_MSG_LEN = 12"
definition MAX_MSG_LEN :: int where "MAX_MSG_LEN = 2 ^ 24"

section \<open>Byte streams\<close>

text \<open>The client or Telegram side of a connection as asyncio's StreamReader sees it: the
  bytes that arrive before the peer closes. \<^verbatim>\<open>readexactly(n)\<close> returns the next \<open>n\<close>
  bytes and raises IncompleteReadError when the stream ends first.\<close>

definition readexactly :: "bytes \<Rightarrow> nat \<Rightarrow> error + (bytes \<times> bytes)" where
  "readexactly up n =
     (if length up < n then Inl IncompleteReadError else Inr (take n up, drop n up))"

text \<open>The \<^verbatim>\<open>extra\<close> dictionary of a write and of a framed read;
  \<^verbatim>\<open>extra.get(k)\<close> is truthy when the flag is there and true.\<close>

type_synonym extra = "string \<rightharpoonup> bool"

definition extra_get :: "extra \<Rightarrow> string \<Rightarrow> bool" where
  "extra_get extra k = (extra k = Some True)"

text \<open>What a \<^verbatim>\<open>write\<close> returns: an integer, or \<^verbatim>\<open>None\<close> (asyncio's
  StreamWriter.write).\<close>

type_synonym ret = "int option"

text \<open>A layered writer calls \<^verbatim>\<open>self.upstream.write\<close>; the upstream object is a state
  \<open>'u\<close> and its write method a function of this type.\<close>

type_synonym 'u write_fn = "'u \<Rightarrow> bytes \<Rightarrow> extra \<Rightarrow> error + (ret \<times> 'u)"

text \<open>asyncio's StreamWriter: the bytes written so far.\<close>

definition StreamWriter_write :: "bytes write_fn" where
  "StreamWriter_write up data extra = Inr (None, up @ data)"

section \<open>FULL framing (middle-proxy control messages)\<close>

record frame_reader =
  fr_upstream :: bytes
  fr_seq_no :: int

text \<open>The loop \<^verbatim>\<open>while msg_len == 4\<close> of MTProtoFrameStreamReader.read.\<close>

function skip_paddings :: "bytes \<Rightarrow> bytes \<Rightarrow> error + (bytes \<times> bytes)" where
  "skip_paddings msg_len_bytes up =
     (if int_from_bytes_little msg_len_bytes = 4
      then (case readexactly up 4 of
              Inl e \<Rightarrow> Inl e
            | Inr (msg_len_bytes', up') \<Rightarrow> skip_paddings msg_len_bytes' up')
      else Inr (msg_len_bytes, up))"
  by pat_completeness auto
termination
  by (relation "measure (\<lambda>(b, up). length up)")
     (auto simp: readexactly_def split: if_splits)

definition MTProtoFrameStreamReader_read :: "frame_reader \<Rightarrow> error + (bytes \<times> frame_reader)" where
  "MTProtoFrameStreamReader_read r =
     (case readexactly (fr_upstream r) 4 of
        Inl e \<Rightarrow> Inl e
      | Inr (msg_len_bytes0, up0) \<Rightarrow>
     (case skip_paddings msg_len_bytes0 up0 of
        Inl e \<Rightarrow> Inl e
      | Inr (msg_len_bytes, up1) \<Rightarrow>
     (let msg_len = int_from_bytes_little msg_len_bytes;
          len_is_bad = (msg_len mod int (length PADDING_FILLER) \<noteq> 0)
      in if \<not> (MIN_MSG_LEN \<le> msg_len \<and> msg_len \<le> MAX_MSG_LEN) \<or> len_is_bad
         then Inr ([], r\<lparr>fr_upstream := up1\<rparr>)
         else
     (case readexactly up1 4 of
        Inl e \<Rightarrow> Inl e
      | Inr (msg_seq_bytes, up2) \<Rightarrow>
     (let msg_seq = int_from_bytes_little_signed msg_seq_bytes
      in if msg_seq \<noteq> fr_seq_no r
         then Inr ([], r\<lparr>fr_upstream := up2\<rparr>)
         else
     (case readexactly up2 (nat (msg_len - 4 - 4 - 4)) of
        Inl e \<Rightarrow> Inl e
      | Inr (data, up3) \<Rightarrow>
     (case readexactly up3 4 of
        Inl e \<Rightarrow> Inl e
      | Inr (checksum_bytes, up4) \<Rightarrow>
     (let checksum = int_from_bytes_little checksum_bytes;
          computed_checksum = crc32 (msg_len_bytes @ msg_seq_bytes @ data);
          r' = \<lparr>fr_upstream = up4, fr_seq_no = fr_seq_no r + 1\<rparr>
      in if computed_checksum \<noteq> checksum then Inr ([], r') else Inr (data, r')))))))))"

record 'u frame_writer =
  fw_upstream :: 'u
  fw_seq_no :: int

text \<open>The bytes MTProtoFrameStreamWriter.write hands to its upstream: length, sequence
  number, message, checksum and the padding to a multiple of 16.\<close>

definition frame_full_msg :: "int \<Rightarrow> bytes \<Rightarrow> error + bytes" where
  "frame_full_msg seq_no msg =
     (case int_to_bytes_little (int (length msg) + 4 + 4 + 4) 4 of
        Inl e \<Rightarrow> Inl e
      | Inr len_bytes \<Rightarrow>
     (case int_to_bytes_little_signed seq_no 4 of
        Inl e \<Rightarrow> Inl e
      | Inr seq_bytes \<Rightarrow>
     (let msg_without_checksum = len_bytes @ seq_bytes @ msg in
      case int_to_bytes_little (crc32 msg_without_checksum) 4 of
        Inl e \<Rightarrow> Inl e
      | Inr checksum \<Rightarrow>
     (let full_msg = msg_without_checksum @ checksum;
          padding = concat (replicate
            (nat ((- int (length full_msg) mod CBC_PADDING) div int (length PADDING_FILLER)))
            PADDING_FILLER)
      in Inr (full_msg @ padding)))))"

definition MTProtoFrameStreamWriter_write ::
  "'u write_fn \<Rightarrow> 'u frame_writer \<Rightarrow> bytes \<Rightarrow> extra \<Rightarrow> error + (ret \<times> 'u frame_writer)" where
  "MTProtoFrameStreamWriter_write upstream_write w msg extra =
     (case frame_full_msg (fw_seq_no w) msg of
        Inl e \<Rightarrow> Inl e
      | Inr out \<Rightarrow>
     (case upstream_write (fw_upstream w) out Map.empty of
        Inl e \<Rightarrow> Inl e
      | Inr (res, up') \<Rightarrow> Inr (res, \<lparr>fw_upstream = up', fw_seq_no = fw_seq_no w + 1\<rparr>)))"

text \<open>A read fails when it raises or returns the empty bytes, which is how the readers
  report a bad frame.\<close>

definition read_fails :: "error + (bytes \<times> 'r) \<Rightarrow> bool" where
  "read_fails res = (case res of Inl e \<Rightarrow> True | Inr (data, r) \<Rightarrow> data = [])"


definition PROTO_TAG_ABRIDGED :: bytes where "PROTO_TAG_ABRIDGED = [0xef, 0xef, 0xef, 0xef]"
definition PROTO_TAG_INTERMEDIATE :: bytes where "PROTO_TAG_INTERMEDIATE = [0xee, 0xee, 0xee, 0xee]"
definition PROTO_TAG_SECURE :: bytes where "PROTO_TAG_SECURE = [0xdd, 0xdd, 0xdd, 0xdd]"

section \<open>Obfuscation layer: CryptoWrappedStreamWriter\<close>

text \<open>The encryptor object is stateful: what \<^verbatim>\<open>encrypt(data)\<close> returns depends on the
  bytes it has processed before. It is a function of that history and the data; the writer
  keeps the history.\<close>

record 'u crypto_writer =
  cw_upstream :: 'u
  cw_encryptor :: "bytes \<Rightarrow> bytes \<Rightarrow> bytes"
  cw_processed :: bytes
  cw_block_size :: int

definition CryptoWrappedStreamWriter_write ::
  "'u write_fn \<Rightarrow> 'u crypto_writer \<Rightarrow> bytes \<Rightarrow> extra \<Rightarrow> error + (ret \<times> 'u crypto_writer)" where
  "CryptoWrappedStreamWriter_write upstream_write w data extra =
     (if cw_block_size w = 0 then Inl ZeroDivisionError
      else if int (length data) mod cw_block_size w \<noteq> 0 then Inr (Some 0, w)
      else
       (let q = cw_encryptor w (cw_processed w) data in
        case upstream_write (cw_upstream w) q Map.empty of
          Inl e \<Rightarrow> Inl e
        | Inr (res, up') \<Rightarrow>
            Inr (res, w\<lparr>cw_upstream := up', cw_processed := cw_processed w @ data\<rparr>)))"

section \<open>ABRIDGED framing writer\<close>

definition MTProtoCompactFrameStreamWriter_write ::
  "'u write_fn \<Rightarrow> 'u \<Rightarrow> bytes \<Rightarrow> extra \<Rightarrow> error + (ret \<times> 'u)" where
  "MTProtoCompactFrameStreamWriter_write upstream_write up data extra =
     (let SMALL_PKT_BORDER = (0x7F :: int); LARGE_PKT_BORGER = (256 ^ 3 :: int) in
      if length data mod 4 \<noteq> 0 then Inr (Some 0, up)
      else if extra_get extra ''SIMPLE_ACK'' then upstream_write up (rev data) Map.empty
      else
       (let len_div_four = int (length data) div 4 in
        if len_div_four < SMALL_PKT_BORDER
        then upstream_write up (word_of_int len_div_four # data) Map.empty
        else if len_div_four < LARGE_PKT_BORGER
        then (case int_to_bytes_little len_div_four 3 of
                Inl e \<Rightarrow> Inl e
              | Inr len_bytes \<Rightarrow> upstream_write up (0x7f # len_bytes @ data) Map.empty)
        else Inr (Some 0, up)))"

section \<open>INTERMEDIATE and SECURE-INTERMEDIATE framing readers\<close>

definition MTProtoIntermediateFrameStreamReader_read ::
  "bytes \<Rightarrow> error + ((bytes \<times> extra) \<times> bytes)" where
  "MTProtoIntermediateFrameStreamReader_read up =
     (case readexactly up 4 of
        Inl e \<Rightarrow> Inl e
      | Inr (msg_len_bytes, up1) \<Rightarrow>
     (let msg_len0 = int_from_bytes_little msg_len_bytes;
          (extra, msg_len) =
             (if msg_len0 > 0x80000000
              then (Map.empty(''QUICKACK_FLAG'' \<mapsto> True), msg_len0 - 0x80000000)
              else (Map.empty, msg_len0))
      in case readexactly up1 (nat msg_len) of
           Inl e \<Rightarrow> Inl e
         | Inr (data, up2) \<Rightarrow> Inr ((data, extra), up2)))"

definition MTProtoSecureIntermediateFrameStreamReader_read ::
  "bytes \<Rightarrow> error + ((bytes \<times> extra) \<times> bytes)" where
  "MTProtoSecureIntermediateFrameStreamReader_read up =
     (case readexactly up 4 of
        Inl e \<Rightarrow> Inl e
      | Inr (msg_len_bytes, up1) \<Rightarrow>
     (let msg_len0 = int_from_bytes_little msg_len_bytes;
          (extra, msg_len) =
             (if msg_len0 > 0x80000000
              then (Map.empty(''QUICKACK_FLAG'' \<mapsto> True), msg_len0 - 0x80000000)
              else (Map.empty, msg_len0))
      in case readexactly up1 (nat msg_len) of
           Inl e \<Rightarrow> Inl e
         | Inr (data0, up2) \<Rightarrow>
            (let data = (if msg_len mod 4 \<noteq> 0
                         then take (nat (msg_len - (msg_len mod 4))) data0 else data0)
             in Inr ((data, extra), up2))))"

section \<open>RPC envelope writer (middle proxy)\<close>

record 'u proxy_req_writer =
  prw_upstream :: 'u
  prw_remote_ip_port :: bytes
  prw_our_ip_port :: bytes
  prw_out_conn_id :: bytes
  prw_proto_tag :: bytes

text \<open>The flags word of ProxyReqStreamWriter.write.\<close>

definition proxy_req_flags :: "bytes \<Rightarrow> extra \<Rightarrow> bytes \<Rightarrow> int" where
  "proxy_req_flags proto_tag extra msg =
     (let FLAG_NOT_ENCRYPTED = (0x2 :: int); FLAG_HAS_AD_TAG = (0x8 :: int);
          FLAG_MAGIC = (0x1000 :: int); FLAG_EXTMODE2 = (0x20000 :: int);
          FLAG_PAD = (0x8000000 :: int); FLAG_INTERMEDIATE = (0x20000000 :: int);
          FLAG_ABRIDGED = (0x40000000 :: int); FLAG_QUICKACK = (0x80000000 :: int);
          flags0 = FLAG_HAS_AD_TAG OR FLAG_MAGIC OR FLAG_EXTMODE2;
          flags1 = (if proto_tag = PROTO_TAG_ABRIDGED then flags0 OR FLAG_ABRIDGED
                    else if proto_tag = PROTO_TAG_INTERMEDIATE then flags0 OR FLAG_INTERMEDIATE
                    else if proto_tag = PROTO_TAG_SECURE
                    then flags0 OR (FLAG_INTERMEDIATE OR FLAG_PAD)
                    else flags0);
          flags2 = (if extra_get extra ''QUICKACK_FLAG'' then flags1 OR FLAG_QUICKACK else flags1)
      in if take 8 msg = replicate 8 0 then flags2 OR FLAG_NOT_ENCRYPTED else flags2)"

text \<open>\<open>ad_tag\<close> is \<^verbatim>\<open>config["mtproto"]["ad_tag"]\<close>; \<^verbatim>\<open>bytes([len(ad_tag)])\<close> raises
  ValueError for a length above 255.\<close>

definition ProxyReqStreamWriter_write ::
  "bytes \<Rightarrow> 'u write_fn \<Rightarrow> 'u proxy_req_writer \<Rightarrow> bytes \<Rightarrow> extra
     \<Rightarrow> error + (ret \<times> 'u proxy_req_writer)" where
  "ProxyReqStreamWriter_write ad_tag upstream_write w msg extra =
     (let RPC_PROXY_REQ = [0xee, 0xf1, 0xce, 0x36];
          EXTRA_SIZE = [0x18, 0x00, 0x00, 0x00];
          PROXY_TAG = [0xae, 0x26, 0x1e, 0xdb];
          FOUR_BYTES_ALIGNER = [0x00, 0x00, 0x00]
      in if length msg mod 4 \<noteq> 0 then Inr (Some 0, w)
         else
      (case int_to_bytes_little (proxy_req_flags (prw_proto_tag w) extra msg) 4 of
         Inl e \<Rightarrow> Inl e
       | Inr flags_bytes \<Rightarrow>
         if 256 \<le> length ad_tag then Inl ValueError
         else
          (let full_msg = RPC_PROXY_REQ @ flags_bytes @ prw_out_conn_id w
                 @ prw_remote_ip_port w @ prw_our_ip_port w @ EXTRA_SIZE @ PROXY_TAG
                 @ [word_of_nat (length ad_tag)] @ ad_tag @ FOUR_BYTES_ALIGNER
                 @ msg
           in case upstream_write (prw_upstream w) full_msg Map.empty of
                Inl e \<Rightarrow> Inl e
              | Inr (res, up') \<Rightarrow> Inr (res, w\<lparr>prw_upstream := up'\<rparr>))))"

section \<open>Middle-proxy key derivation\<close>

text \<open>An optional bytes argument is falsy when it is \<^verbatim>\<open>None\<close> or empty.\<close>

definition truthy :: "bytes option \<Rightarrow> bool" where
  "truthy x = (case x of None \<Rightarrow> False | Some b \<Rightarrow> b \<noteq> [])"

text \<open>The buffer \<open>s\<close> that get_middleproxy_aes_key_and_iv hashes.\<close>

definition middleproxy_key_material ::
  "bytes \<Rightarrow> bytes \<Rightarrow> bytes \<Rightarrow> bytes option \<Rightarrow> bytes \<Rightarrow> bytes \<Rightarrow> bytes option \<Rightarrow> bytes
     \<Rightarrow> bytes \<Rightarrow> bytes option \<Rightarrow> bytes option \<Rightarrow> bytes" where
  "middleproxy_key_material nonce_srv nonce_clt clt_ts srv_ip clt_port purpose clt_ip srv_port
       middleproxy_secret clt_ipv6 srv_ipv6 =
     (let EMPTY_IP = [0x00, 0x00, 0x00, 0x00];
          (clt_ip', srv_ip') =
             (if \<not> truthy clt_ip \<or> \<not> truthy srv_ip then (EMPTY_IP, EMPTY_IP)
              else (the clt_ip, the srv_ip));
          s0 = nonce_srv @ nonce_clt @ clt_ts @ srv_ip' @ clt_port @ purpose @ clt_ip' @ srv_port;
          s1 = s0 @ middleproxy_secret @ nonce_srv;
          s2 = (if truthy clt_ipv6 \<and> truthy srv_ipv6
                then s1 @ the clt_ipv6 @ the srv_ipv6 else s1)
      in s2 @ nonce_clt)"

text \<open>\<open>md5\<close> and \<open>sha1\<close> are \<^verbatim>\<open>hashlib.md5(x).digest()\<close> and
  \<^verbatim>\<open>hashlib.sha1(x).digest()\<close>.\<close>

definition get_middleproxy_aes_key_and_iv ::
  "(bytes \<Rightarrow> bytes) \<Rightarrow> (bytes \<Rightarrow> bytes) \<Rightarrow>
   bytes \<Rightarrow> bytes \<Rightarrow> bytes \<Rightarrow> bytes option \<Rightarrow> bytes \<Rightarrow> bytes \<Rightarrow> bytes option \<Rightarrow> bytes
     \<Rightarrow> bytes \<Rightarrow> bytes option \<Rightarrow> bytes option \<Rightarrow> bytes \<times> bytes" where
  "get_middleproxy_aes_key_and_iv md5 sha1 nonce_srv nonce_clt clt_ts srv_ip clt_port purpose
       clt_ip srv_port middleproxy_secret clt_ipv6 srv_ipv6 =
     (let s = middleproxy_key_material nonce_srv nonce_clt clt_ts srv_ip clt_port purpose clt_ip
                srv_port middleproxy_secret clt_ipv6 srv_ipv6;
          md5_sum = md5 (drop 1 s);
          sha1_sum = sha1 s;
          key = take 12 md5_sum @ sha1_sum;
          iv = md5 (drop 2 s)
      in (key, iv))"

text \<open>The buffer as the specification composes it: the fields as given, an absent
  address contributing no bytes, the IPv6 pair appended when both are present (given and
  not empty).\<close>

definition spec_key_material ::
  "bytes \<Rightarrow> bytes \<Rightarrow> bytes \<Rightarrow> bytes option \<Rightarrow> bytes \<Rightarrow> bytes \<Rightarrow> bytes option \<Rightarrow> bytes
     \<Rightarrow> bytes \<Rightarrow> bytes option \<Rightarrow> bytes option \<Rightarrow> bytes" where
  "spec_key_material serverNonce clientNonce cryptoTs srvIp cltPort purpose cltIp srvPort
       middleProxySecret cltIPv6 srvIPv6 =
     serverNonce @ clientNonce @ cryptoTs @ (case srvIp of None \<Rightarrow> [] | Some b \<Rightarrow> b) @ cltPort
       @ purpose @ (case cltIp of None \<Rightarrow> [] | Some b \<Rightarrow> b) @ srvPort @ middleProxySecret
       @ serverNonce
       @ (if truthy cltIPv6 \<and> truthy srvIPv6 then the cltIPv6 @ the srvIPv6 else [])
       @ clientNonce"

text \<open>Stand-ins for a 16-byte and a 20-byte digest in closed examples: the length of the
  input, little-endian.\<close>

definition sample_md5 :: "bytes \<Rightarrow> bytes" where
  "sample_md5 x = le_bytes 16 (int (length x))"

definition sample_sha1 :: "bytes \<Rightarrow> bytes" where
  "sample_sha1 x = le_bytes 20 (int (length x))"

section \<open>Configuration, users and the proxy's shared state\<close>

record user =
  u_name :: string
  u_secret :: string
  u_max_tcp_conns :: "int option"
  u_expiration_date :: "string option"
  u_data_quota :: "int option"

record config =
  proxy_protocol :: bool
  replay_check_len :: int
  client_ips_len :: int
  ignore_time_skew :: bool
  use_middle_proxy :: bool
  fast_mode :: bool

text \<open>The module-level variables that connections change. The ordered dictionaries
  \<^verbatim>\<open>used_handshakes\<close> and \<^verbatim>\<open>client_ips\<close> are their keys in insertion order (each value
  is \<^verbatim>\<open>True\<close>); the counters give 0 for a key they do not hold. \<open>time_calls\<close> counts the
  calls of \<^verbatim>\<open>time.time()\<close> made so far.\<close>

record proxy_state =
  used_handshakes :: "bytes list"
  client_ips :: "string list"
  last_client_ips :: "string set"
  last_clients_with_time_skew :: "string \<rightharpoonup> int"
  last_clients_with_same_handshake :: "string \<Rightarrow> int"
  stats :: "string \<Rightarrow> int"
  user_stats :: "string \<Rightarrow> string \<Rightarrow> int"
  time_calls :: nat

text \<open>What a connection reads and does not change, and the library and the network it
  calls: \<^verbatim>\<open>hmac.new(key, msg, sha256).digest()\<close>, \<^verbatim>\<open>hashlib.sha256(x).digest()\<close>, the
  first \<^verbatim>\<open>decrypt\<close> of a fresh \<^verbatim>\<open>create_aes_ctr(key, iv)\<close>, the \<open>k\<close>-th reading of
  \<^verbatim>\<open>time.time()\<close>, \<^verbatim>\<open>myrandom.getrandbytes\<close>, the key of \<^verbatim>\<open>gen_x25519_public_key()\<close>,
  the outcome of \<^verbatim>\<open>handle_proxy_protocol\<close> on the client's bytes (the new peer, or
  \<^verbatim>\<open>False\<close>, and the bytes left), and whether the handshake with the Telegram side
  (\<^verbatim>\<open>do_direct_handshake\<close> or \<^verbatim>\<open>do_middleproxy_handshake\<close>) succeeds.\<close>

record env =
  cfg :: config
  users :: "user list"
  is_time_skewed :: bool
  disable_middle_proxy :: bool
  fake_cert_len :: nat
  hmac_sha256 :: "bytes \<Rightarrow> bytes \<Rightarrow> bytes"
  sha256 :: "bytes \<Rightarrow> bytes"
  aes_ctr_decrypt :: "bytes \<Rightarrow> int \<Rightarrow> bytes \<Rightarrow> bytes"
  time_time :: "nat \<Rightarrow> real"
  getrandbytes :: "nat \<Rightarrow> bytes"
  x25519_public_key :: bytes
  handle_proxy_protocol :: "bytes \<Rightarrow> string \<times> int \<Rightarrow> error + ((string \<times> int) option \<times> bytes)"
  tg_handshake :: "bool \<Rightarrow> bytes \<Rightarrow> int \<Rightarrow> bool"

definition SKIP_LEN :: nat where "SKIP_LEN = 8"
definition PREKEY_LEN :: nat where "PREKEY_LEN = 32"
definition KEY_LEN :: nat where "KEY_LEN = 32"
definition IV_LEN :: nat where "IV_LEN = 16"
definition HANDSHAKE_LEN :: nat where "HANDSHAKE_LEN = 64"
definition TLS_HANDSHAKE_LEN :: nat where "TLS_HANDSHAKE_LEN = 1 + 2 + 2 + 512"
definition PROTO_TAG_POS :: nat where "PROTO_TAG_POS = 56"
definition DC_IDX_POS :: nat where "DC_IDX_POS = 60"

definition TLS_START_BYTES :: bytes where
  "TLS_START_BYTES = [0x16, 0x03, 0x01, 0x02, 0x00, 0x01, 0x00, 0x01, 0xfc, 0x03, 0x03]"

text \<open>\<^verbatim>\<open>bytes.fromhex\<close>: two hexadecimal digits per byte, ASCII whitespace skipped before
  a byte, ValueError otherwise.\<close>

definition hex_digit :: "char \<Rightarrow> nat option" where
  "hex_digit c =
     (let n = of_char c :: nat in
      if 48 \<le> n \<and> n \<le> 57 then Some (n - 48)
      else if 97 \<le> n \<and> n \<le> 102 then Some (n - 87)
      else if 65 \<le> n \<and> n \<le> 70 then Some (n - 55)
      else None)"

definition is_space :: "char \<Rightarrow> bool" where
  "is_space c = (of_char c \<in> {9, 10, 11, 12, 13, 32 :: nat})"

fun bytes_fromhex :: "string \<Rightarrow> error + bytes" where
  "bytes_fromhex [] = Inr []"
| "bytes_fromhex [c] = (if is_space c then Inr [] else Inl ValueError)"
| "bytes_fromhex (c # d # cs) =
     (if is_space c then bytes_fromhex (d # cs)
      else (case (hex_digit c, hex_digit d) of
              (Some a, Some b) \<Rightarrow>
                (case bytes_fromhex cs of
                   Inl e \<Rightarrow> Inl e
                 | Inr bs \<Rightarrow> Inr (of_nat (16 * a + b) # bs))
            | _ \<Rightarrow> Inl ValueError))"

text \<open>\<^verbatim>\<open>while len(d) >= n: d.popitem(last=False)\<close> on an ordered dictionary:
  \<^verbatim>\<open>popitem\<close> removes the oldest key and raises KeyError on an empty dictionary.\<close>

fun evict_oldest :: "int \<Rightarrow> 'a list \<Rightarrow> error + 'a list" where
  "evict_oldest n [] = (if n \<le> 0 then Inl KeyError else Inr [])"
| "evict_oldest n (x # xs) =
     (if n \<le> int (length (x # xs)) then evict_oldest n xs else Inr (x # xs))"

text \<open>\<^verbatim>\<open>d[k] = True\<close> on an ordered dictionary: a new key goes last, a key already there
  keeps its place.\<close>

definition ordered_set :: "'a list \<Rightarrow> 'a \<Rightarrow> 'a list" where
  "ordered_set d k = (if k \<in> set d then d else d @ [k])"

text \<open>The block that records a handshake in the replay cache, and the one that records the
  client's address; both stand in handle_fake_tls_handshake and again in handle_handshake.\<close>

definition record_handshake :: "config \<Rightarrow> bytes \<Rightarrow> proxy_state \<Rightarrow> error + proxy_state" where
  "record_handshake c k st =
     (if replay_check_len c > 0
      then (case evict_oldest (replay_check_len c) (used_handshakes st) of
              Inl e \<Rightarrow> Inl e
            | Inr d \<Rightarrow> Inr (st\<lparr>used_handshakes := ordered_set d k\<rparr>))
      else Inr st)"

definition record_client_ip :: "config \<Rightarrow> string \<Rightarrow> proxy_state \<Rightarrow> error + proxy_state" where
  "record_client_ip c ip st =
     (if client_ips_len c > 0
      then (case evict_oldest (client_ips_len c) (client_ips st) of
              Inl e \<Rightarrow> Inl e
            | Inr d \<Rightarrow>
                if ip \<notin> set d
                then Inr (st\<lparr>client_ips := d @ [ip],
                             last_client_ips := insert ip (last_client_ips st)\<rparr>)
                else Inr (st\<lparr>client_ips := d\<rparr>))
      else Inr st)"

text \<open>\<^verbatim>\<open>update_stats(k=1)\<close> and \<^verbatim>\<open>update_user_stats(user, k=v)\<close>.\<close>

definition update_stats :: "string \<Rightarrow> int \<Rightarrow> proxy_state \<Rightarrow> proxy_state" where
  "update_stats k v st = st\<lparr>stats := (stats st)(k := stats st k + v)\<rparr>"

definition update_user_stats :: "string \<Rightarrow> string \<Rightarrow> int \<Rightarrow> proxy_state \<Rightarrow> proxy_state" where
  "update_user_stats u k v st =
     st\<lparr>user_stats := (user_stats st)(u := (user_stats st u)(k := user_stats st u k + v))\<rparr>"

text \<open>handle_bad_client counts the connection as bad and then tunnels the client to the
  cover host, or drains it; of the tunnel the model keeps the call and the bytes replayed to
  the cover host, see \<open>hs_outcome\<close>.\<close>

definition handle_bad_client :: "proxy_state \<Rightarrow> proxy_state" where
  "handle_bad_client st = update_stats ''connects_bad'' 1 st"

section \<open>FakeTLS record reader\<close>

record fake_tls_reader =
  ftr_upstream :: bytes
  ftr_buf :: bytes

text \<open>The loop of FakeTLSStreamReader.read once the buffer is passed over: the data of
  the next ApplicationData record, ChangeCipherSpec records skipped; the empty bytes for a
  bad record type or version.\<close>

function fake_tls_read_record :: "bytes \<Rightarrow> error + (bytes \<times> bytes)" where
  "fake_tls_read_record up =
     (case readexactly up 1 of
        Inl e \<Rightarrow> Inl e
      | Inr (tls_rec_type, up1) \<Rightarrow>
        if tls_rec_type \<noteq> [0x14] \<and> tls_rec_type \<noteq> [0x17] then Inr ([], up1)
        else
     (case readexactly up1 2 of
        Inl e \<Rightarrow> Inl e
      | Inr (version, up2) \<Rightarrow>
        if version \<noteq> [0x03, 0x03] then Inr ([], up2)
        else
     (case readexactly up2 2 of
        Inl e \<Rightarrow> Inl e
      | Inr (len_bytes, up3) \<Rightarrow>
     (case readexactly up3 (nat (int_from_bytes_big len_bytes)) of
        Inl e \<Rightarrow> Inl e
      | Inr (data, up4) \<Rightarrow>
        if tls_rec_type = [0x14] then fake_tls_read_record up4 else Inr (data, up4)))))"
  by pat_completeness auto
termination
  by (relation "measure length") (auto simp: readexactly_def split: if_splits)

declare fake_tls_read_record.simps [simp del]

definition FakeTLSStreamReader_read ::
  "fake_tls_reader \<Rightarrow> bool \<Rightarrow> error + (bytes \<times> fake_tls_reader)" where
  "FakeTLSStreamReader_read r ignore_buf =
     (if ftr_buf r \<noteq> [] \<and> \<not> ignore_buf then Inr (ftr_buf r, r\<lparr>ftr_buf := []\<rparr>)
      else (case fake_tls_read_record (ftr_upstream r) of
              Inl e \<Rightarrow> Inl e
            | Inr (data, up) \<Rightarrow> Inr (data, r\<lparr>ftr_upstream := up\<rparr>)))"

function FakeTLSStreamReader_readexactly ::
  "fake_tls_reader \<Rightarrow> nat \<Rightarrow> error + (bytes \<times> fake_tls_reader)" where
  "FakeTLSStreamReader_readexactly r n =
     (if length (ftr_buf r) < n
      then (case FakeTLSStreamReader_read r True of
              Inl e \<Rightarrow> Inl e
            | Inr (tls_data, r1) \<Rightarrow>
                if tls_data = [] then Inr ([], r1)
                else FakeTLSStreamReader_readexactly (r1\<lparr>ftr_buf := ftr_buf r1 @ tls_data\<rparr>) n)
      else Inr (take n (ftr_buf r), r\<lparr>ftr_buf := drop n (ftr_buf r)\<rparr>))"
  by pat_completeness auto
termination
  by (relation "measure (\<lambda>(r, n). n - length (ftr_buf r))")
     (auto simp: FakeTLSStreamReader_read_def neq_Nil_conv
        split: if_splits sum.splits prod.splits)

declare FakeTLSStreamReader_readexactly.simps [simp del]

section \<open>FakeTLS handshake\<close>

text \<open>The peer address of a connection: \<^verbatim>\<open>None\<close>, the empty name of a unix socket, or
  host and port.\<close>

datatype peername = PeerNone | PeerUnnamed | PeerAddr string int

record conn =
  is_closing :: bool
  conn_peername :: peername
  client_input :: bytes

text \<open>The byte-wise XOR of the received digest with the computed one;
  indexing either below 32 bytes raises IndexError.\<close>

definition xor_digest :: "bytes \<Rightarrow> bytes \<Rightarrow> error + bytes" where
  "xor_digest digest computed_digest =
     (if length digest < 32 \<or> length computed_digest < 32 then Inl IndexError
      else Inr (map (\<lambda>(a, b). a XOR b) (zip (take 32 digest) (take 32 computed_digest))))"

text \<open>The accepting branch of the loop over the users in handle_fake_tls_handshake: the
  ServerHello is built and written, then the digest and the client's address are recorded.
  The result is the client writer's bytes and the state.\<close>

definition fake_tls_accept ::
  "env \<Rightarrow> string \<times> int \<Rightarrow> bytes \<Rightarrow> bytes \<Rightarrow> byte \<Rightarrow> bytes \<Rightarrow> bytes \<Rightarrow> proxy_state
     \<Rightarrow> error + (bytes \<times> proxy_state)" where
  "fake_tls_accept e peer secret digest sess_id_len sess_id writer st =
     (let TLS_VERS = [0x03, 0x03];
          TLS_CIPHERSUITE = [0x13, 0x01];
          TLS_CHANGE_CIPHER = [0x14] @ TLS_VERS @ [0x00, 0x01, 0x01];
          TLS_APP_HTTP2_HDR = [0x17] @ TLS_VERS;
          tls_extensions = [0x00, 0x2e] @ [0x00, 0x33, 0x00, 0x24] @ [0x00, 0x1d, 0x00, 0x20]
             @ x25519_public_key e @ [0x00, 0x2b, 0x00, 0x02, 0x03, 0x04];
          http_data = getrandbytes e (fake_cert_len e);
          srv_hello = TLS_VERS @ replicate 32 0x00 @ [sess_id_len] @ sess_id
             @ TLS_CIPHERSUITE @ [0x00] @ tls_extensions
      in
      case int_to_bytes_big (int (length srv_hello) + 4) 2 of
        Inl err \<Rightarrow> Inl err
      | Inr len1 \<Rightarrow>
     (case int_to_bytes_big (int (length srv_hello)) 3 of
        Inl err \<Rightarrow> Inl err
      | Inr len2 \<Rightarrow>
     (case int_to_bytes_big (int (length http_data)) 2 of
        Inl err \<Rightarrow> Inl err
      | Inr len3 \<Rightarrow>
     (let hello_pkt0 = [0x16] @ TLS_VERS @ len1 @ [0x02] @ len2 @ srv_hello
             @ TLS_CHANGE_CIPHER @ TLS_APP_HTTP2_HDR @ len3 @ http_data;
          computed_digest = hmac_sha256 e secret (digest @ hello_pkt0);
          hello_pkt = take 11 hello_pkt0 @ computed_digest @ drop (11 + 32) hello_pkt0;
          writer' = writer @ hello_pkt
      in
      case record_handshake (cfg e) (take 16 digest) st of
        Inl err \<Rightarrow> Inl err
      | Inr st1 \<Rightarrow>
     (case record_client_ip (cfg e) (fst peer) st1 of
        Inl err \<Rightarrow> Inl err
      | Inr st2 \<Rightarrow> Inr (writer', st2))))))"

text \<open>One round of a loop over the users: \<^verbatim>\<open>continue\<close> with the state as it is then,
  or \<^verbatim>\<open>return\<close> with a result.\<close>

datatype 'a round = Continue proxy_state | Return 'a

text \<open>The body of the loop over the users in handle_fake_tls_handshake. The result
  returned is the client writer's bytes and the state (the function then returns the wrapped
  reader and writer).\<close>

definition fake_tls_try_user ::
  "env \<Rightarrow> string \<times> int \<Rightarrow> bytes \<Rightarrow> byte \<Rightarrow> bytes \<Rightarrow> bytes \<Rightarrow> proxy_state \<Rightarrow> user
     \<Rightarrow> error + (bytes \<times> proxy_state) round" where
  "fake_tls_try_user e peer handshake sess_id_len sess_id writer st u =
     (let TIME_SKEW_MIN = (- 20 * 60 :: real); TIME_SKEW_MAX = (10 * 60 :: real);
          digest = take 32 (drop 11 handshake)
      in
      case bytes_fromhex (u_secret u) of
        Inl err \<Rightarrow> Inl err
      | Inr secret \<Rightarrow>
     (let msg = take 11 handshake @ replicate 32 0x00 @ drop (11 + 32) handshake;
          computed_digest = hmac_sha256 e secret msg
      in
      case xor_digest digest computed_digest of
        Inl err \<Rightarrow> Inl err
      | Inr xored_digest \<Rightarrow>
     (let digest_good = (take (32 - 4) xored_digest = replicate (32 - 4) 0x00) in
      if \<not> digest_good then Inr (Continue st)
      else
     (let timestamp = int_from_bytes_little (drop (length xored_digest - 4) xored_digest);
          now = time_time e (time_calls st);
          st1 = st\<lparr>time_calls := time_calls st + 1\<rparr>;
          client_time_is_ok =
            (TIME_SKEW_MIN < now - real_of_int timestamp
             \<and> now - real_of_int timestamp < TIME_SKEW_MAX);
          client_time_is_small = (timestamp < 60 * 60 * 24 * 1000);
          accept_bad_time =
            (ignore_time_skew (cfg e) \<or> is_time_skewed e \<or> client_time_is_small)
      in
      if \<not> client_time_is_ok \<and> \<not> accept_bad_time
      then
       (let now2 = time_time e (time_calls st1);
            st2 = st1\<lparr>time_calls := time_calls st1 + 1,
                      last_clients_with_time_skew :=
                        (last_clients_with_time_skew st1)
                          (fst peer \<mapsto> \<lfloor>(now2 - real_of_int timestamp) / 60\<rfloor>)\<rparr>
        in Inr (Continue st2))
      else
       (case fake_tls_accept e peer secret digest sess_id_len sess_id writer st1 of
          Inl err \<Rightarrow> Inl err
        | Inr res \<Rightarrow> Inr (Return res))))))"

text \<open>The loop over the users. The result is whether a user matched (otherwise the
  function returns \<^verbatim>\<open>False\<close>), the client writer's bytes and the state.\<close>

fun fake_tls_users ::
  "env \<Rightarrow> string \<times> int \<Rightarrow> bytes \<Rightarrow> byte \<Rightarrow> bytes \<Rightarrow> bytes \<Rightarrow> proxy_state \<Rightarrow> user list
     \<Rightarrow> error + (bool \<times> bytes \<times> proxy_state)" where
  "fake_tls_users e peer handshake sess_id_len sess_id writer st [] = Inr (False, writer, st)"
| "fake_tls_users e peer handshake sess_id_len sess_id writer st (u # us) =
     (case fake_tls_try_user e peer handshake sess_id_len sess_id writer st u of
        Inl err \<Rightarrow> Inl err
      | Inr (Continue st') \<Rightarrow> fake_tls_users e peer handshake sess_id_len sess_id writer st' us
      | Inr (Return (writer', st')) \<Rightarrow> Inr (True, writer', st'))"

definition handle_fake_tls_handshake ::
  "env \<Rightarrow> bytes \<Rightarrow> bytes \<Rightarrow> string \<times> int \<Rightarrow> proxy_state
     \<Rightarrow> error + (bool \<times> bytes \<times> proxy_state)" where
  "handle_fake_tls_handshake e handshake writer peer st =
     (let DIGEST_LEN = (32 :: nat); DIGEST_HALFLEN = (16 :: nat); DIGEST_POS = (11 :: nat);
          SESSION_ID_LEN_POS = DIGEST_POS + DIGEST_LEN;
          SESSION_ID_POS = SESSION_ID_LEN_POS + 1;
          digest = take DIGEST_LEN (drop DIGEST_POS handshake)
      in
      if take DIGEST_HALFLEN digest \<in> set (used_handshakes st)
      then Inr (False, writer,
             st\<lparr>last_clients_with_same_handshake :=
                  (last_clients_with_same_handshake st)
                    (fst peer := last_clients_with_same_handshake st (fst peer) + 1)\<rparr>)
      else if length handshake \<le> SESSION_ID_LEN_POS then Inl IndexError
      else
       (let sess_id_len = handshake ! SESSION_ID_LEN_POS;
            sess_id = take (unat sess_id_len) (drop SESSION_ID_POS handshake)
        in fake_tls_users e peer handshake sess_id_len sess_id writer st (users e)))"

section \<open>Obfuscated MTProto handshake\<close>

text \<open>What handle_handshake returns for an accepted client: the reader (the FakeTLS
  reader, wrapped with the decryptor that has processed the 64 handshake bytes), the bytes
  written to the client so far, the protocol tag, the user's name, the datacenter index, the
  encryption key and IV, and the peer.\<close>

record client_data =
  cd_reader :: fake_tls_reader
  cd_dec_key :: bytes
  cd_dec_iv :: int
  cd_dec_processed :: bytes
  cd_writer :: bytes
  cd_enc_key :: bytes
  cd_enc_iv :: int
  cd_proto_tag :: bytes
  cd_user :: string
  cd_dc_idx :: int
  cd_enc_key_and_iv :: bytes
  cd_peer :: "string \<times> int"

text \<open>How handle_handshake ends: \<^verbatim>\<open>False\<close> at once (the transport is closing or has no
  peer); \<^verbatim>\<open>False\<close> after \<^verbatim>\<open>handle_bad_client(reader, writer, handshake)\<close>, with the
  handshake bytes it passes (\<^verbatim>\<open>None\<close> after bad PROXY protocol headers); or the client
  data.\<close>

datatype hs_outcome = NotStarted | BadClient "bytes option" | Accepted client_data

text \<open>The loop over \<^verbatim>\<open>TLS_START_BYTES\<close>: one byte is read at a time, and the loop stops
  at the first byte that differs.\<close>

fun read_tls_start :: "bytes \<Rightarrow> bytes \<Rightarrow> bytes \<Rightarrow> error + (bool \<times> bytes \<times> bytes)" where
  "read_tls_start [] handshake reader = Inr (True, handshake, reader)"
| "read_tls_start (expected_byte # rest) handshake reader =
     (case readexactly reader 1 of
        Inl err \<Rightarrow> Inl err
      | Inr (b, reader') \<Rightarrow>
         (let handshake' = handshake @ b in
          if last handshake' \<noteq> expected_byte then Inr (False, handshake', reader')
          else read_tls_start rest handshake' reader'))"

text \<open>The body of the loop over the users in handle_handshake.\<close>

definition obfuscated_try_user ::
  "env \<Rightarrow> string \<times> int \<Rightarrow> bytes \<Rightarrow> fake_tls_reader \<Rightarrow> bytes \<Rightarrow> proxy_state \<Rightarrow> user
     \<Rightarrow> error + (client_data \<times> proxy_state) round" where
  "obfuscated_try_user e peer handshake reader writer st u =
     (let dec_prekey_and_iv = take (PREKEY_LEN + IV_LEN) (drop SKIP_LEN handshake);
          dec_prekey = take PREKEY_LEN dec_prekey_and_iv;
          dec_iv = drop PREKEY_LEN dec_prekey_and_iv;
          enc_prekey_and_iv = rev (take (PREKEY_LEN + IV_LEN) (drop SKIP_LEN handshake));
          enc_prekey = take PREKEY_LEN enc_prekey_and_iv;
          enc_iv = drop PREKEY_LEN enc_prekey_and_iv
      in
      case bytes_fromhex (u_secret u) of
        Inl err \<Rightarrow> Inl err
      | Inr secret \<Rightarrow>
     (let dec_key = sha256 e (dec_prekey @ secret);
          enc_key = sha256 e (enc_prekey @ secret);
          decrypted = aes_ctr_decrypt e dec_key (int_from_bytes_big dec_iv) handshake;
          proto_tag = take 4 (drop PROTO_TAG_POS decrypted)
      in
      if proto_tag \<noteq> PROTO_TAG_ABRIDGED \<and> proto_tag \<noteq> PROTO_TAG_INTERMEDIATE
         \<and> proto_tag \<noteq> PROTO_TAG_SECURE
      then Inr (Continue st)
      else
     (let dc_idx = int_from_bytes_little_signed (take 2 (drop DC_IDX_POS decrypted)) in
      case record_handshake (cfg e) dec_prekey_and_iv st of
        Inl err \<Rightarrow> Inl err
      | Inr st1 \<Rightarrow>
     (case record_client_ip (cfg e) (fst peer) st1 of
        Inl err \<Rightarrow> Inl err
      | Inr st2 \<Rightarrow>
          Inr (Return
                (\<lparr>cd_reader = reader, cd_dec_key = dec_key,
                  cd_dec_iv = int_from_bytes_big dec_iv, cd_dec_processed = handshake,
                  cd_writer = writer, cd_enc_key = enc_key,
                  cd_enc_iv = int_from_bytes_big enc_iv,
                  cd_proto_tag = proto_tag, cd_user = u_name u, cd_dc_idx = dc_idx,
                  cd_enc_key_and_iv = enc_key @ enc_iv, cd_peer = peer\<rparr>,
                 st2))))))"

text \<open>The loop over the users in handle_handshake; when no user matches, the client is
  handed to handle_bad_client.\<close>

fun obfuscated_users ::
  "env \<Rightarrow> string \<times> int \<Rightarrow> bytes \<Rightarrow> fake_tls_reader \<Rightarrow> bytes \<Rightarrow> proxy_state \<Rightarrow> user list
     \<Rightarrow> error + (hs_outcome \<times> bytes \<times> proxy_state)" where
  "obfuscated_users e peer handshake reader writer st [] =
     Inr (BadClient (Some handshake), writer, handle_bad_client st)"
| "obfuscated_users e peer handshake reader writer st (u # us) =
     (case obfuscated_try_user e peer handshake reader writer st u of
        Inl err \<Rightarrow> Inl err
      | Inr (Continue st') \<Rightarrow> obfuscated_users e peer handshake reader writer st' us
      | Inr (Return (cd, st')) \<Rightarrow> Inr (Accepted cd, writer, st'))"

text \<open>handle_handshake from the replay guard of the inner 64-byte block on.\<close>

definition handle_obfuscated ::
  "env \<Rightarrow> string \<times> int \<Rightarrow> bytes \<Rightarrow> fake_tls_reader \<Rightarrow> bytes \<Rightarrow> proxy_state
     \<Rightarrow> error + (hs_outcome \<times> bytes \<times> proxy_state)" where
  "handle_obfuscated e peer handshake reader writer st =
     (let dec_prekey_and_iv = take (PREKEY_LEN + IV_LEN) (drop SKIP_LEN handshake) in
      if dec_prekey_and_iv \<in> set (used_handshakes st)
      then Inr (BadClient (Some handshake), writer,
             handle_bad_client
               (st\<lparr>last_clients_with_same_handshake :=
                    (last_clients_with_same_handshake st)
                      (fst peer := last_clients_with_same_handshake st (fst peer) + 1)\<rparr>))
      else obfuscated_users e peer handshake reader writer st (users e))"

text \<open>handle_handshake from the probe of the first bytes on.\<close>

definition handle_tls_start ::
  "env \<Rightarrow> string \<times> int \<Rightarrow> bytes \<Rightarrow> proxy_state \<Rightarrow> error + (hs_outcome \<times> bytes \<times> proxy_state)" where
  "handle_tls_start e peer reader st =
     (case read_tls_start TLS_START_BYTES [] reader of
        Inl err \<Rightarrow> Inl err
      | Inr (is_tls_handshake, handshake0, reader1) \<Rightarrow>
        if is_tls_handshake
        then
         (case readexactly reader1 (TLS_HANDSHAKE_LEN - length handshake0) of
            Inl err \<Rightarrow> Inl err
          | Inr (remainder, reader2) \<Rightarrow>
         (let handshake = handshake0 @ remainder in
          case handle_fake_tls_handshake e handshake [] peer st of
            Inl err \<Rightarrow> Inl err
          | Inr (tls_handshake_result, writer, st1) \<Rightarrow>
            if \<not> tls_handshake_result
            then Inr (BadClient (Some handshake), writer, handle_bad_client st1)
            else
         (case FakeTLSStreamReader_readexactly \<lparr>ftr_upstream = reader2, ftr_buf = []\<rparr>
                 HANDSHAKE_LEN of
            Inl err \<Rightarrow> Inl err
          | Inr (inner, reader3) \<Rightarrow> handle_obfuscated e peer inner reader3 writer st1)))
        else Inr (BadClient (Some handshake0), [], handle_bad_client st))"

definition handle_handshake ::
  "env \<Rightarrow> conn \<Rightarrow> proxy_state \<Rightarrow> error + (hs_outcome \<times> bytes \<times> proxy_state)" where
  "handle_handshake e c st =
     (if is_closing c \<or> conn_peername c = PeerNone then Inr (NotStarted, [], st)
      else
       (let peer = (case conn_peername c of
                      PeerAddr host port \<Rightarrow> (host, port)
                    | _ \<Rightarrow> (''unknown ip'', 0))
        in
        if proxy_protocol (cfg e)
        then (case handle_proxy_protocol e (client_input c) peer of
                Inl err \<Rightarrow> Inl err
              | Inr (None, reader) \<Rightarrow> Inr (BadClient None, [], handle_bad_client st)
              | Inr (Some peer', reader) \<Rightarrow> handle_tls_start e peer' reader st)
        else handle_tls_start e peer (client_input c) st))"

section \<open>Lemmas: integers, CRC-32, FULL framing\<close>

lemma length_le_bytes [simp]: "length (le_bytes n v) = n"
  by (induction n arbitrary: v) auto

lemma int_from_bytes_little_le_bytes: "int_from_bytes_little (le_bytes n v) = v mod 2 ^ (8 * n)"
proof (induction n arbitrary: v)
  case 0
  then show ?case by simp
next
  case (Suc n)
  have "uint (word_of_int v :: byte) = v mod 256"
    by (simp add: uint_word_of_int)
  moreover have "v mod 2 ^ (8 * Suc n) = v mod 256 + 256 * ((v div 256) mod 2 ^ (8 * n))"
    by (simp add: power_add zmod_zmult2_eq)
  ultimately show ?case using Suc by simp
qed

lemma int_from_bytes_little_bounds:
  "0 \<le> int_from_bytes_little bs \<and> int_from_bytes_little bs < 2 ^ (8 * length bs)"
proof (induction bs)
  case Nil
  then show ?case by simp
next
  case (Cons b bs)
  have "0 \<le> uint b" "uint b < 256" using uint_lt2p [of b] by simp_all
  then show ?case using Cons by (simp add: power_add) 
qed

lemma int_from_bytes_little_inj:
  "length xs = length ys \<Longrightarrow> int_from_bytes_little xs = int_from_bytes_little ys \<Longrightarrow> xs = ys"
proof (induction xs arbitrary: ys)
  case Nil
  then show ?case by simp
next
  case (Cons x xs)
  then obtain y ys' where ys: "ys = y # ys'" by (cases ys) auto
  have eq: "uint x + 256 * int_from_bytes_little xs = uint y + 256 * int_from_bytes_little ys'"
    using Cons.prems ys by simp
  have bx: "0 \<le> uint x" "uint x < 256" using uint_lt2p [of x] by simp_all
  have by': "0 \<le> uint y" "uint y < 256" using uint_lt2p [of y] by simp_all
  have "(uint x + 256 * int_from_bytes_little xs) mod 256
      = (uint y + 256 * int_from_bytes_little ys') mod 256"
    using eq by simp
  then have "uint x mod 256 = uint y mod 256" by simp
  then have "uint x = uint y" using bx by' by simp
  then have "x = y" by (rule word_uint_eqI)
  moreover have "int_from_bytes_little xs = int_from_bytes_little ys'"
    using eq \<open>uint x = uint y\<close> by simp
  ultimately show ?case using Cons ys by auto
qed

lemma xor_cancel_right: "(a::'a::len word) XOR c = b XOR c \<Longrightarrow> a = b"
proof -
  assume "a XOR c = b XOR c"
  then have "(a XOR c) XOR c = (b XOR c) XOR c" by simp
  then show "a = b" by (simp add: xor.assoc)
qed

lemma crc32_bit_top: "bit (crc32_bit c) 31 = bit c 0"
  by (auto simp: crc32_bit_def bit_simps dest: bit_imp_le_length)

lemma crc32_bit_inj: "crc32_bit a = crc32_bit b \<Longrightarrow> a = b"
proof -
  assume eq: "crc32_bit a = crc32_bit b"
  then have b0: "bit a 0 = bit b 0" by (metis crc32_bit_top)
  with eq have d: "drop_bit 1 a = drop_bit 1 b"
    by (auto simp: crc32_bit_def split: if_splits dest: xor_cancel_right)
  show "a = b"
  proof (rule bit_eqI)
    fix n
    show "bit a n = bit b n"
    proof (cases n)
      case 0
      then show ?thesis using b0 by simp
    next
      case (Suc m)
      have "bit (drop_bit 1 a) m = bit (drop_bit 1 b) m" using d by simp
      then show ?thesis using Suc by (simp add: bit_drop_bit_eq)
    qed
  qed
qed

lemma crc32_bit_pow_inj: "(crc32_bit ^^ k) a = (crc32_bit ^^ k) b \<Longrightarrow> a = b"
  by (induction k) (auto dest: crc32_bit_inj)

lemma ucast_byte_inj:
  assumes "(ucast (x::byte) :: 32 word) = ucast y"
  shows "x = y"
proof -
  have "(ucast (ucast x :: 32 word) :: byte) = ucast (ucast y :: 32 word)"
    using assms by simp
  then show ?thesis by (simp add: ucast_up_ucast_id is_up)
qed

lemma xor_cancel_left: "(c::'a::len word) XOR a = c XOR b \<Longrightarrow> a = b"
  using xor_cancel_right [of a c b] by (simp add: xor.commute)

lemma crc32_byte_inj_byte: "crc32_byte c x = crc32_byte c y \<Longrightarrow> x = y"
  unfolding crc32_byte_def
  by (blast dest: crc32_bit_pow_inj xor_cancel_left ucast_byte_inj)

lemma crc32_byte_inj_state: "crc32_byte c x = crc32_byte d x \<Longrightarrow> c = d"
  unfolding crc32_byte_def
  by (blast dest: crc32_bit_pow_inj xor_cancel_right)

lemma foldl_crc32_byte_inj_state:
  "foldl crc32_byte c bs = foldl crc32_byte d bs \<Longrightarrow> c = d"
  by (induction bs arbitrary: c d) (auto dest: crc32_byte_inj_state)

lemma crc32_eq_iff:
  "crc32 xs = crc32 ys \<longleftrightarrow> foldl crc32_byte 0xFFFFFFFF xs = foldl crc32_byte 0xFFFFFFFF ys"
  unfolding crc32_def
  by (auto dest!: word_uint_eqI xor_cancel_right)

lemma crc32_detects_byte:
  assumes "x \<noteq> y"
  shows "crc32 (pre @ x # post) \<noteq> crc32 (pre @ y # post)"
proof
  assume "crc32 (pre @ x # post) = crc32 (pre @ y # post)"
  then have "foldl crc32_byte (crc32_byte (foldl crc32_byte 0xFFFFFFFF pre) x) post
           = foldl crc32_byte (crc32_byte (foldl crc32_byte 0xFFFFFFFF pre) y) post"
    by (simp add: crc32_eq_iff)
  then have "crc32_byte (foldl crc32_byte 0xFFFFFFFF pre) x
           = crc32_byte (foldl crc32_byte 0xFFFFFFFF pre) y"
    by (rule foldl_crc32_byte_inj_state)
  then show False using assms by (auto dest: crc32_byte_inj_byte)
qed

lemma crc32_bounds: "0 \<le> crc32 bs \<and> crc32 bs < 2 ^ 32"
  unfolding crc32_def using uint_lt2p [of "foldl crc32_byte 0xFFFFFFFF bs XOR 0xFFFFFFFF"]
  by simp

lemma crc32_byte_unfold:
  "crc32_byte c b = crc32_bit (crc32_bit (crc32_bit (crc32_bit (crc32_bit (crc32_bit
     (crc32_bit (crc32_bit (c XOR ucast b))))))))"
  by (simp add: crc32_byte_def eval_nat_numeral)

lemma readexactly_append [simp]:
  "length a = n \<Longrightarrow> readexactly (a @ b) n = Inr (a, b)"
  by (simp add: readexactly_def)

lemma readexactly_4 [simp]:
  "readexactly (a # b # c # d # xs) 4 = Inr ([a, b, c, d], xs)"
  by (simp add: readexactly_def)

lemma skip_paddings_done:
  "int_from_bytes_little b \<noteq> 4 \<Longrightarrow> skip_paddings b up = Inr (b, up)"
  by simp

lemma skip_paddings_filler:
  "skip_paddings PADDING_FILLER (concat (replicate k PADDING_FILLER) @ rest)
   = (case readexactly rest 4 of Inl e \<Rightarrow> Inl e | Inr (b, up) \<Rightarrow> skip_paddings b up)"
proof (induction k)
  case 0
  show ?case by (subst skip_paddings.simps) (simp add: PADDING_FILLER_def)
next
  case (Suc k)
  have "skip_paddings PADDING_FILLER (concat (replicate (Suc k) PADDING_FILLER) @ rest)
      = skip_paddings PADDING_FILLER (concat (replicate k PADDING_FILLER) @ rest)"
    by (subst skip_paddings.simps) (simp add: PADDING_FILLER_def)
  then show ?case using Suc by simp
qed

lemma frame_read_skips_padding:
  "MTProtoFrameStreamReader_read \<lparr>fr_upstream = concat (replicate k PADDING_FILLER) @ rest, fr_seq_no = s\<rparr>
   = MTProtoFrameStreamReader_read \<lparr>fr_upstream = rest, fr_seq_no = s\<rparr>"
proof (cases k)
  case 0
  then show ?thesis by simp
next
  case (Suc j)
  have a: "readexactly (concat (replicate (Suc j) PADDING_FILLER) @ rest) 4
         = Inr (PADDING_FILLER, concat (replicate j PADDING_FILLER) @ rest)"
    by (simp add: PADDING_FILLER_def)
  show ?thesis
    unfolding MTProtoFrameStreamReader_read_def
    by (simp only: Suc a skip_paddings_filler frame_reader.simps sum.case prod.case)
       (auto split: sum.splits prod.splits)
qed

lemma int_from_bytes_little_signed_inj:
  assumes "length xs = length ys"
    and "int_from_bytes_little_signed xs = int_from_bytes_little_signed ys"
  shows "xs = ys"
proof -
  have bx: "0 \<le> int_from_bytes_little xs" "int_from_bytes_little xs < 2 ^ (8 * length xs)"
    using int_from_bytes_little_bounds [of xs] by simp_all
  have by': "0 \<le> int_from_bytes_little ys" "int_from_bytes_little ys < 2 ^ (8 * length xs)"
    using int_from_bytes_little_bounds [of ys] assms(1) by simp_all
  have "int_from_bytes_little xs = int_from_bytes_little ys"
    using assms bx by'
    by (auto simp: int_from_bytes_little_signed_def Let_def split: if_splits)
  then show ?thesis using assms(1) by (rule int_from_bytes_little_inj [rotated])
qed

lemma int_from_bytes_little_signed_le_bytes4:
  assumes "- (2 ^ 31) \<le> n" "n < 2 ^ 31"
  shows "int_from_bytes_little_signed (le_bytes 4 n) = n"
proof -
  have m: "int_from_bytes_little (le_bytes 4 n) = n mod 2 ^ 32"
    using int_from_bytes_little_le_bytes [of 4 n] by simp
  have l: "le_bytes 4 n \<noteq> []" by (simp add: eval_nat_numeral)
  show ?thesis
  proof (cases "0 \<le> n")
    case True
    then have "n mod 2 ^ 32 = n" using assms by simp
    then show ?thesis using m l True assms
      by (simp add: int_from_bytes_little_signed_def Let_def)
  next
    case False
    then have "(n + 2 ^ 32) mod 2 ^ 32 = n + 2 ^ 32"
      using assms by (intro mod_pos_pos_trivial) simp_all
    then have "n mod 2 ^ 32 = n + 2 ^ 32" by simp
    then show ?thesis using m l False assms
      by (simp add: int_from_bytes_little_signed_def Let_def)
  qed
qed

lemma frame_read_fields:
  assumes "length lb = 4" "length sb = 4" "length cb = 4"
    and "int_from_bytes_little lb = int (length d) + 12"
    and "length d mod 4 = 0" "int (length d) \<le> 2 ^ 24 - 12"
  shows "MTProtoFrameStreamReader_read \<lparr>fr_upstream = lb @ sb @ d @ cb @ rest, fr_seq_no = s\<rparr> =
     (if int_from_bytes_little_signed sb \<noteq> s
      then Inr ([], \<lparr>fr_upstream = d @ cb @ rest, fr_seq_no = s\<rparr>)
      else if crc32 (lb @ sb @ d) \<noteq> int_from_bytes_little cb
      then Inr ([], \<lparr>fr_upstream = rest, fr_seq_no = s + 1\<rparr>)
      else Inr (d, \<lparr>fr_upstream = rest, fr_seq_no = s + 1\<rparr>))"
proof -
  have ne4: "int_from_bytes_little lb \<noteq> 4" using assms(4) by simp
  have lenmod: "(int (length d) + 12) mod 4 = 0"
    using assms(5) by presburger
  show ?thesis
    unfolding MTProtoFrameStreamReader_read_def
    using assms ne4 lenmod
    by (simp add: skip_paddings_done Let_def MIN_MSG_LEN_def MAX_MSG_LEN_def PADDING_FILLER_def
        del: skip_paddings.simps)
qed

lemma frame_full_msg_eq:
  assumes "int (length P) \<le> 2 ^ 24 - 12" "- (2 ^ 31) \<le> n" "n < 2 ^ 31"
  shows "frame_full_msg n P =
     Inr (le_bytes 4 (int (length P) + 12) @ le_bytes 4 n @ P
          @ le_bytes 4 (crc32 (le_bytes 4 (int (length P) + 12) @ le_bytes 4 n @ P))
          @ concat (replicate (nat ((- (int (length P) + 12) mod 16) div 4)) PADDING_FILLER))"
proof -
  have c: "0 \<le> crc32 (le_bytes 4 (int (length P) + 12) @ le_bytes 4 n @ P)"
      "crc32 (le_bytes 4 (int (length P) + 12) @ le_bytes 4 n @ P) < 4294967296"
    using crc32_bounds [of "le_bytes 4 (int (length P) + 12) @ le_bytes 4 n @ P"] by simp_all
  show ?thesis
    unfolding frame_full_msg_def int_to_bytes_little_def int_to_bytes_little_signed_def
    using assms c
    by (simp add: Let_def CBC_PADDING_def PADDING_FILLER_def add.commute)
qed

lemma frame_read_written:
  assumes "length P mod 4 = 0" "int (length P) \<le> 2 ^ 24 - 12"
    and "- (2 ^ 31) \<le> n" "n < 2 ^ 31"
    and "frame_full_msg n P = Inr F"
  shows "MTProtoFrameStreamReader_read \<lparr>fr_upstream = F @ rest, fr_seq_no = n\<rparr>
       = Inr (P, \<lparr>fr_upstream = drop (length P + 12) F @ rest, fr_seq_no = n + 1\<rparr>)"
proof -
  define lb where "lb = le_bytes 4 (int (length P) + 12)"
  define sb where "sb = le_bytes 4 n"
  define cb where "cb = le_bytes 4 (crc32 (lb @ sb @ P))"
  define pad where "pad = concat (replicate (nat ((- (int (length P) + 12) mod 16) div 4)) PADDING_FILLER)"
  have F: "F = lb @ sb @ P @ cb @ pad"
    using frame_full_msg_eq [OF assms(2,3,4)] assms(5)
    by (simp add: lb_def sb_def cb_def pad_def)
  have l: "length lb = 4" "length sb = 4" "length cb = 4"
    by (simp_all add: lb_def sb_def cb_def)
  have lv: "int_from_bytes_little lb = int (length P) + 12"
    using assms(2) by (simp add: lb_def int_from_bytes_little_le_bytes)
  have sv: "int_from_bytes_little_signed sb = n"
    using assms(3,4) by (simp add: sb_def int_from_bytes_little_signed_le_bytes4)
  have cv: "int_from_bytes_little cb = crc32 (lb @ sb @ P)"
    using crc32_bounds [of "lb @ sb @ P"] by (simp add: cb_def int_from_bytes_little_le_bytes)
  have "MTProtoFrameStreamReader_read \<lparr>fr_upstream = lb @ sb @ P @ cb @ (pad @ rest), fr_seq_no = n\<rparr>
      = Inr (P, \<lparr>fr_upstream = pad @ rest, fr_seq_no = n + 1\<rparr>)"
    using frame_read_fields [OF l lv assms(1,2), of "pad @ rest" n] sv cv by simp
  moreover have "drop (length P + 12) F = pad" using F l by simp
  ultimately show ?thesis using F by simp
qed

lemma update_middle:
  assumes "length a = k" "k \<le> i" "i < k + length m"
  shows "(a @ m @ c)[i := x] = a @ m[i - k := x] @ c"
    and "(a @ m @ c) ! i = m ! (i - k)"
    and "i - k < length m"
  using assms by (auto simp: list_update_append nth_append)

lemma frame_read_corrupted:
  assumes "length P mod 4 = 0" "int (length P) \<le> 2 ^ 24 - 12"
    and "- (2 ^ 31) \<le> n" "n < 2 ^ 31"
    and "frame_full_msg n P = Inr F"
    and "4 \<le> i" "i < length P + 12" "b \<noteq> F ! i"
  shows "read_fails (MTProtoFrameStreamReader_read \<lparr>fr_upstream = F[i := b] @ rest, fr_seq_no = n\<rparr>)"
proof -
  define lb where "lb = le_bytes 4 (int (length P) + 12)"
  define sb where "sb = le_bytes 4 n"
  define cb where "cb = le_bytes 4 (crc32 (lb @ sb @ P))"
  define pad where "pad = concat (replicate (nat ((- (int (length P) + 12) mod 16) div 4)) PADDING_FILLER)"
  have F: "F = lb @ sb @ P @ cb @ pad"
    using frame_full_msg_eq [OF assms(2,3,4)] assms(5)
    by (simp add: lb_def sb_def cb_def pad_def)
  have l: "length lb = 4" "length sb = 4" "length cb = 4"
    by (simp_all add: lb_def sb_def cb_def)
  have lv: "int_from_bytes_little lb = int (length P) + 12"
    using assms(2) by (simp add: lb_def int_from_bytes_little_le_bytes)
  have sv: "int_from_bytes_little_signed sb = n"
    using assms(3,4) by (simp add: sb_def int_from_bytes_little_signed_le_bytes4)
  have cv: "int_from_bytes_little cb = crc32 (lb @ sb @ P)"
    using crc32_bounds [of "lb @ sb @ P"] by (simp add: cb_def int_from_bytes_little_le_bytes)
  consider (seq) "i < 8" | (data) "8 \<le> i" "i < 8 + length P" | (crc) "8 + length P \<le> i"
    by linarith
  then show ?thesis
  proof cases
    case seq
    define sb' where "sb' = sb[i - 4 := b]"
    have r: "length lb = 4" "4 \<le> i" "i < 4 + length sb" using l seq assms(6) by simp_all
    have i4: "i - 4 < length sb" by (rule update_middle(3) [OF r])
    have F': "F[i := b] = lb @ sb' @ P @ cb @ pad"
      unfolding F sb'_def by (rule update_middle(1) [OF r])
    have "sb ! (i - 4) = F ! i" unfolding F by (rule update_middle(2) [OF r, symmetric])
    moreover have "sb' ! (i - 4) = b" using i4 by (simp add: sb'_def)
    ultimately have "sb' \<noteq> sb" using assms(8) by auto
    moreover have l': "length sb' = 4" using l by (simp add: sb'_def)
    ultimately have "int_from_bytes_little_signed sb' \<noteq> n"
      using sv l int_from_bytes_little_signed_inj [of sb' sb] by auto
    then show ?thesis
      using frame_read_fields [OF l(1) l' l(3) lv assms(1,2), of "pad @ rest" n] F'
      by (simp add: read_fails_def)
  next
    case data
    define j where "j = i - 8"
    have r: "length (lb @ sb) = 8" "8 \<le> i" "i < 8 + length P" using l data by simp_all
    have j: "j < length P" unfolding j_def by (rule update_middle(3) [OF r])
    define P' where "P' = P[j := b]"
    have "((lb @ sb) @ P @ (cb @ pad))[i := b] = (lb @ sb) @ P[i - 8 := b] @ (cb @ pad)"
      by (rule update_middle(1) [OF r])
    then have F': "F[i := b] = lb @ sb @ P' @ cb @ pad"
      by (simp add: F P'_def j_def)
    have "((lb @ sb) @ P @ (cb @ pad)) ! i = P ! (i - 8)"
      by (rule update_middle(2) [OF r])
    then have Pj: "P ! j = F ! i" by (simp add: F j_def)
    have P'eq: "P' = take j P @ b # drop (Suc j) P"
      using j by (simp add: P'_def upd_conv_take_nth_drop)
    have Peq: "take j P @ P ! j # drop (Suc j) P = P"
      by (rule id_take_nth_drop [symmetric, OF j])
    have D: "crc32 ((lb @ sb @ take j P) @ b # drop (Suc j) P)
        \<noteq> crc32 ((lb @ sb @ take j P) @ P ! j # drop (Suc j) P)"
      using assms(8) Pj by (intro crc32_detects_byte) simp
    have A: "crc32 (lb @ sb @ P') = crc32 ((lb @ sb @ take j P) @ b # drop (Suc j) P)"
      by (simp add: P'eq)
    have B: "crc32 (lb @ sb @ P) = crc32 ((lb @ sb @ take j P) @ P ! j # drop (Suc j) P)"
      by (simp add: Peq)
    have ne: "crc32 (lb @ sb @ P') \<noteq> crc32 (lb @ sb @ P)"
      unfolding A B by (rule D)
    have lP': "length P' = length P" by (simp add: P'_def)
    have lv': "int_from_bytes_little lb = int (length P') + 12" using lv lP' by simp
    show ?thesis
      using frame_read_fields [OF l lv', of "pad @ rest" n] assms(1,2) lP' F' ne cv
      by (simp add: read_fails_def)
  next
    case crc
    define cb' where "cb' = cb[i - (8 + length P) := b]"
    have r: "length (lb @ sb @ P) = 8 + length P" "8 + length P \<le> i"
        "i < (8 + length P) + length cb"
      using l crc assms(7) by simp_all
    have "((lb @ sb @ P) @ cb @ pad)[i := b] = (lb @ sb @ P) @ cb[i - (8 + length P) := b] @ pad"
      by (rule update_middle(1) [OF r])
    then have F': "F[i := b] = lb @ sb @ P @ cb' @ pad"
      by (simp add: F cb'_def)
    have k: "i - (8 + length P) < length cb" by (rule update_middle(3) [OF r])
    have "((lb @ sb @ P) @ cb @ pad) ! i = cb ! (i - (8 + length P))"
      by (rule update_middle(2) [OF r])
    then have "cb ! (i - (8 + length P)) = F ! i" by (simp add: F)
    moreover have "cb' ! (i - (8 + length P)) = b" using k by (simp add: cb'_def)
    ultimately have "cb' \<noteq> cb" using assms(8) by auto
    moreover have l': "length cb' = 4" using l by (simp add: cb'_def)
    ultimately have "int_from_bytes_little cb' \<noteq> crc32 (lb @ sb @ P)"
      using cv l int_from_bytes_little_inj [of cb' cb] by auto
    then show ?thesis
      using frame_read_fields [OF l(1,2) l' lv assms(1,2), of "pad @ rest" n] F'
      by (simp add: read_fails_def)
  qed
qed

lemma le_bytes_4: "le_bytes 4 v =
  [word_of_int v, word_of_int (v div 256), word_of_int (v div 256 div 256),
   word_of_int (v div 256 div 256 div 256)]"
  by (simp add: eval_nat_numeral)

lemma replicate_numeral: "replicate (numeral k) x = x # replicate (pred_numeral k) x"
  by (simp add: numeral_eq_Suc)

lemma crc_ex1: "crc32 [20,0,0,0,0,0,0,0,1,0,0,0,246,76,113,207] = 4118123419"
  by (simp add: crc32_def crc32_byte_unfold crc32_bit_def)

lemma crc_ex2: "crc32 [16,0,0,0,0,0,0,0,1,0,0,0] = 3480308982"
  by (simp add: crc32_def crc32_byte_unfold crc32_bit_def)

lemma frame_ex1:
  "frame_full_msg 0 [1,0,0,0,246,76,113,207] =
     Inr [20,0,0,0, 0,0,0,0, 1,0,0,0,246,76,113,207, 155,147,117,245,
          4,0,0,0, 4,0,0,0, 4,0,0,0]"
  by (simp add: frame_full_msg_def int_to_bytes_little_def int_to_bytes_little_signed_def
      le_bytes_4 crc_ex1 Let_def CBC_PADDING_def PADDING_FILLER_def replicate_numeral)

lemma read_ex1:
  "MTProtoFrameStreamReader_read
     \<lparr>fr_upstream = [16,0,0,0, 0,0,0,0, 1,0,0,0,246,76,113,207, 155,147,117,245,
          4,0,0,0, 4,0,0,0, 4,0,0,0], fr_seq_no = 0\<rparr>
   = Inr ([1,0,0,0], \<lparr>fr_upstream = [155,147,117,245, 4,0,0,0, 4,0,0,0, 4,0,0,0], fr_seq_no = 1\<rparr>)"
  by (simp add: MTProtoFrameStreamReader_read_def readexactly_def int_from_bytes_little_signed_def
      Let_def MIN_MSG_LEN_def MAX_MSG_LEN_def PADDING_FILLER_def crc_ex2)


lemma read_ex2:
  "MTProtoFrameStreamReader_read
     \<lparr>fr_upstream = [20,0,0,0, 0,0,0,0, 1,0,0,0,246,76,113,207, 155,147,117,245,
          255,0,0,0, 4,0,0,0, 4,0,0,0], fr_seq_no = 0\<rparr>
   = Inr ([1,0,0,0,246,76,113,207], \<lparr>fr_upstream = [255,0,0,0, 4,0,0,0, 4,0,0,0], fr_seq_no = 1\<rparr>)"
  by (simp add: MTProtoFrameStreamReader_read_def readexactly_def int_from_bytes_little_signed_def
      Let_def MIN_MSG_LEN_def MAX_MSG_LEN_def PADDING_FILLER_def crc_ex1)

lemma write_ex3: "frame_full_msg 2147483648 [] = Inl OverflowError"
  by (simp add: frame_full_msg_def int_to_bytes_little_def int_to_bytes_little_signed_def)

lemma crc_ex3: "crc32 [20,0,0,0,5,0,0,0,1,2,3,4,5,6,7,8] = 484841968"
  by (simp add: crc32_def crc32_byte_unfold crc32_bit_def)

lemma crc_ex4: "crc32 [16,0,0,0,6,0,0,0,9,9,9,9] = 1801803260"
  by (simp add: crc32_def crc32_byte_unfold crc32_bit_def)

section \<open>FULL framing: round trip, corruption, padding\<close>

text \<open>Claim C4, as amended. A payload whose length is a multiple of 4 and at most
  \<open>2^24 - 12\<close>, written by the FULL framing writer at a sequence number \<open>n\<close> that fits
  the signed 4-byte field, is read back exactly by the FULL framing reader expecting \<open>n\<close>,
  which then expects \<open>n + 1\<close>; and changing any byte of the sequence number, of the
  payload or of the checksum makes the reader fail. (Bytes of the length field and of the
  padding are not covered: see the counterexample.)\<close>

theorem full_frame_round_trip:
  assumes "length P mod 4 = 0" and "int (length P) \<le> 2 ^ 24 - 12"
    and "- (2 ^ 31) \<le> n" and "n < 2 ^ 31"
  shows "\<exists>F. MTProtoFrameStreamWriter_write StreamWriter_write
               \<lparr>fw_upstream = [], fw_seq_no = n\<rparr> P extra
             = Inr (None, \<lparr>fw_upstream = F, fw_seq_no = n + 1\<rparr>)
           \<and> MTProtoFrameStreamReader_read \<lparr>fr_upstream = F, fr_seq_no = n\<rparr>
             = Inr (P, \<lparr>fr_upstream = drop (length P + 12) F, fr_seq_no = n + 1\<rparr>)
           \<and> (\<forall>i b. 4 \<le> i \<and> i < length P + 12 \<and> b \<noteq> F ! i \<longrightarrow>
                 read_fails (MTProtoFrameStreamReader_read
                   \<lparr>fr_upstream = F[i := b], fr_seq_no = n\<rparr>))"
proof -
  obtain F where F: "frame_full_msg n P = Inr F"
    using frame_full_msg_eq [OF assms(2,3,4)] by blast
  have w: "MTProtoFrameStreamWriter_write StreamWriter_write
             \<lparr>fw_upstream = [], fw_seq_no = n\<rparr> P extra
           = Inr (None, \<lparr>fw_upstream = F, fw_seq_no = n + 1\<rparr>)"
    by (simp add: MTProtoFrameStreamWriter_write_def StreamWriter_write_def F)
  have r: "MTProtoFrameStreamReader_read \<lparr>fr_upstream = F, fr_seq_no = n\<rparr>
           = Inr (P, \<lparr>fr_upstream = drop (length P + 12) F, fr_seq_no = n + 1\<rparr>)"
    using frame_read_written [OF assms F, of "[]"] by simp
  have c: "read_fails (MTProtoFrameStreamReader_read \<lparr>fr_upstream = F[i := b], fr_seq_no = n\<rparr>)"
    if "4 \<le> i" "i < length P + 12" "b \<noteq> F ! i" for i b
    using frame_read_corrupted [OF assms F that, of "[]"] by simp
  show ?thesis using w r c by blast
qed

theorem full_frame_round_trip_witness:
  "length [1, 2, 3, 4 :: byte] mod 4 = 0 \<and> int (length [1, 2, 3, 4 :: byte]) \<le> 2 ^ 24 - 12
   \<and> - (2 ^ 31) \<le> (- 2 :: int) \<and> (- 2 :: int) < 2 ^ 31
   \<and> (\<exists>F. MTProtoFrameStreamWriter_write StreamWriter_write
               \<lparr>fw_upstream = [], fw_seq_no = - 2\<rparr> [1, 2, 3, 4] Map.empty
             = Inr (None, \<lparr>fw_upstream = F, fw_seq_no = - 1\<rparr>)
           \<and> MTProtoFrameStreamReader_read \<lparr>fr_upstream = F, fr_seq_no = - 2\<rparr>
             = Inr ([1, 2, 3, 4], \<lparr>fr_upstream = drop 16 F, fr_seq_no = - 1\<rparr>)
           \<and> read_fails (MTProtoFrameStreamReader_read
                 \<lparr>fr_upstream = F[9 := F ! 9 + 1], fr_seq_no = - 2\<rparr>))"
proof -
  have h: "length [1, 2, 3, 4 :: byte] mod 4 = 0" "int (length [1, 2, 3, 4 :: byte]) \<le> 2 ^ 24 - 12"
    "- (2 ^ 31) \<le> (- 2 :: int)" "(- 2 :: int) < 2 ^ 31"
    by simp_all
  from full_frame_round_trip [OF h, of Map.empty]
  obtain F where F: "MTProtoFrameStreamWriter_write StreamWriter_write
               \<lparr>fw_upstream = [], fw_seq_no = - 2\<rparr> [1, 2, 3, 4] Map.empty
             = Inr (None, \<lparr>fw_upstream = F, fw_seq_no = - 2 + 1\<rparr>)"
     "MTProtoFrameStreamReader_read \<lparr>fr_upstream = F, fr_seq_no = - 2\<rparr>
             = Inr ([1, 2, 3, 4], \<lparr>fr_upstream = drop (length [1, 2, 3, 4 :: byte] + 12) F,
                  fr_seq_no = - 2 + 1\<rparr>)"
     "\<forall>i b. 4 \<le> i \<and> i < length [1, 2, 3, 4 :: byte] + 12 \<and> b \<noteq> F ! i \<longrightarrow>
                 read_fails (MTProtoFrameStreamReader_read
                   \<lparr>fr_upstream = F[i := b], fr_seq_no = - 2\<rparr>)"
    by blast
  have "F ! 9 + 1 \<noteq> F ! 9" by simp
  with F(3) have "read_fails (MTProtoFrameStreamReader_read
                 \<lparr>fr_upstream = F[9 := F ! 9 + 1], fr_seq_no = - 2\<rparr>)"
    by simp
  with F(1,2) h show ?thesis by auto
qed

text \<open>Claim C4 as stated fails at the payload \<open>01 00 00 00 f6 4c 71 cf\<close>, sequence 0. Its
  frame is 20 bytes and 12 bytes of padding. Changing the first length byte from \<open>0x14\<close> to
  \<open>0x10\<close> makes the reader return the 4-byte payload \<open>01 00 00 00\<close>, because the next four
  payload bytes are the CRC-32 of the shortened frame; changing the first padding byte (index
  20) is not seen by the read of this frame, which returns the payload unchanged. A sequence
  number that does not fit four signed bytes is refused by the writer.\<close>

theorem full_frame_mutation_counterexample:
  "MTProtoFrameStreamWriter_write StreamWriter_write \<lparr>fw_upstream = [], fw_seq_no = 0\<rparr>
       [1, 0, 0, 0, 246, 76, 113, 207] Map.empty
     = Inr (None, \<lparr>fw_upstream =
         [20, 0, 0, 0, 0, 0, 0, 0, 1, 0, 0, 0, 246, 76, 113, 207, 155, 147, 117, 245,
          4, 0, 0, 0, 4, 0, 0, 0, 4, 0, 0, 0], fw_seq_no = 1\<rparr>)
   \<and> MTProtoFrameStreamReader_read \<lparr>fr_upstream =
         [20, 0, 0, 0, 0, 0, 0, 0, 1, 0, 0, 0, 246, 76, 113, 207, 155, 147, 117, 245,
          4, 0, 0, 0, 4, 0, 0, 0, 4, 0, 0, 0] [0 := 16], fr_seq_no = 0\<rparr>
     = Inr ([1, 0, 0, 0],
            \<lparr>fr_upstream = [155, 147, 117, 245, 4, 0, 0, 0, 4, 0, 0, 0, 4, 0, 0, 0], fr_seq_no = 1\<rparr>)
   \<and> MTProtoFrameStreamReader_read \<lparr>fr_upstream =
         [20, 0, 0, 0, 0, 0, 0, 0, 1, 0, 0, 0, 246, 76, 113, 207, 155, 147, 117, 245,
          4, 0, 0, 0, 4, 0, 0, 0, 4, 0, 0, 0] [20 := 255], fr_seq_no = 0\<rparr>
     = Inr ([1, 0, 0, 0, 246, 76, 113, 207],
            \<lparr>fr_upstream = [255, 0, 0, 0, 4, 0, 0, 0, 4, 0, 0, 0], fr_seq_no = 1\<rparr>)
   \<and> MTProtoFrameStreamWriter_write StreamWriter_write \<lparr>fw_upstream = [], fw_seq_no = 2147483648\<rparr>
       [] Map.empty = Inl OverflowError"
proof -
  have u0: "[20, 0, 0, 0, 0, 0, 0, 0, 1, 0, 0, 0, 246, 76, 113, 207, 155, 147, 117, 245,
          4, 0, 0, 0, 4, 0, 0, 0, 4, 0, 0, 0 :: byte] [0 := 16]
        = [16, 0, 0, 0, 0, 0, 0, 0, 1, 0, 0, 0, 246, 76, 113, 207, 155, 147, 117, 245,
          4, 0, 0, 0, 4, 0, 0, 0, 4, 0, 0, 0]"
    by simp
  have u20: "[20, 0, 0, 0, 0, 0, 0, 0, 1, 0, 0, 0, 246, 76, 113, 207, 155, 147, 117, 245,
          4, 0, 0, 0, 4, 0, 0, 0, 4, 0, 0, 0 :: byte] [20 := 255]
        = [20, 0, 0, 0, 0, 0, 0, 0, 1, 0, 0, 0, 246, 76, 113, 207, 155, 147, 117, 245,
          255, 0, 0, 0, 4, 0, 0, 0, 4, 0, 0, 0]"
    by (simp add: eval_nat_numeral)
  show ?thesis
    unfolding u0 u20
    by (simp add: MTProtoFrameStreamWriter_write_def StreamWriter_write_def
        frame_ex1 read_ex1 read_ex2 write_ex3)
qed

text \<open>Claim C9. The FULL framing reader skips any number of leading padding words
  \<open>04 00 00 00\<close> before it parses a frame: reading from a stream that starts with \<open>k\<close>
  copies of the filler is reading from the stream without them. Hence two frames written
  one after the other, each right-padded by the writer to a multiple of 16 bytes, are read
  back one after the other.\<close>

theorem full_frame_reader_skips_padding:
  "(\<forall>k rest s.
      MTProtoFrameStreamReader_read
        \<lparr>fr_upstream = concat (replicate k PADDING_FILLER) @ rest, fr_seq_no = s\<rparr>
      = MTProtoFrameStreamReader_read \<lparr>fr_upstream = rest, fr_seq_no = s\<rparr>)
   \<and> (\<forall>P1 P2 n F1 F2.
        length P1 mod 4 = 0 \<and> int (length P1) \<le> 2 ^ 24 - 12 \<and>
        length P2 mod 4 = 0 \<and> int (length P2) \<le> 2 ^ 24 - 12 \<and>
        - (2 ^ 31) \<le> n \<and> n + 1 < 2 ^ 31 \<and>
        frame_full_msg n P1 = Inr F1 \<and> frame_full_msg (n + 1) P2 = Inr F2 \<longrightarrow>
        (\<exists>pad1 pad2.
           MTProtoFrameStreamReader_read \<lparr>fr_upstream = F1 @ F2, fr_seq_no = n\<rparr>
             = Inr (P1, \<lparr>fr_upstream = pad1 @ F2, fr_seq_no = n + 1\<rparr>)
           \<and> MTProtoFrameStreamReader_read \<lparr>fr_upstream = pad1 @ F2, fr_seq_no = n + 1\<rparr>
             = Inr (P2, \<lparr>fr_upstream = pad2, fr_seq_no = n + 2\<rparr>)))"
proof (intro conjI allI impI)
  fix k rest s
  show "MTProtoFrameStreamReader_read
        \<lparr>fr_upstream = concat (replicate k PADDING_FILLER) @ rest, fr_seq_no = s\<rparr>
      = MTProtoFrameStreamReader_read \<lparr>fr_upstream = rest, fr_seq_no = s\<rparr>"
    by (rule frame_read_skips_padding)
next
  fix P1 P2 n F1 F2
  assume a: "length P1 mod 4 = 0 \<and> int (length P1) \<le> 2 ^ 24 - 12 \<and>
        length P2 mod 4 = 0 \<and> int (length P2) \<le> 2 ^ 24 - 12 \<and>
        - (2 ^ 31) \<le> n \<and> n + 1 < 2 ^ 31 \<and>
        frame_full_msg n P1 = Inr F1 \<and> frame_full_msg (n + 1) P2 = Inr F2"
  define k1 where "k1 = nat ((- (int (length P1) + 12) mod 16) div 4)"
  have n: "- (2 ^ 31) \<le> n" "n < 2 ^ 31" "- (2 ^ 31) \<le> n + 1" "n + 1 < 2 ^ 31"
    using a by simp_all
  have F1: "drop (length P1 + 12) F1 = concat (replicate k1 PADDING_FILLER)"
    using frame_full_msg_eq [of P1 n] a n by (auto simp: k1_def)
  have r1: "MTProtoFrameStreamReader_read \<lparr>fr_upstream = F1 @ F2, fr_seq_no = n\<rparr>
      = Inr (P1, \<lparr>fr_upstream = concat (replicate k1 PADDING_FILLER) @ F2, fr_seq_no = n + 1\<rparr>)"
    using frame_read_written [of P1 n F1 F2] a n F1 by simp
  have "MTProtoFrameStreamReader_read \<lparr>fr_upstream = F2 @ [], fr_seq_no = n + 1\<rparr>
      = Inr (P2, \<lparr>fr_upstream = drop (length P2 + 12) F2 @ [], fr_seq_no = n + 1 + 1\<rparr>)"
    using a n by (intro frame_read_written) simp_all
  then have r2: "MTProtoFrameStreamReader_read
        \<lparr>fr_upstream = concat (replicate k1 PADDING_FILLER) @ F2, fr_seq_no = n + 1\<rparr>
      = Inr (P2, \<lparr>fr_upstream = drop (length P2 + 12) F2, fr_seq_no = n + 2\<rparr>)"
    by (simp add: frame_read_skips_padding)
  show "\<exists>pad1 pad2.
           MTProtoFrameStreamReader_read \<lparr>fr_upstream = F1 @ F2, fr_seq_no = n\<rparr>
             = Inr (P1, \<lparr>fr_upstream = pad1 @ F2, fr_seq_no = n + 1\<rparr>)
           \<and> MTProtoFrameStreamReader_read \<lparr>fr_upstream = pad1 @ F2, fr_seq_no = n + 1\<rparr>
             = Inr (P2, \<lparr>fr_upstream = pad2, fr_seq_no = n + 2\<rparr>)"
    using r1 r2 by blast
qed

theorem full_frame_reader_skips_padding_witness:
  "MTProtoFrameStreamReader_read
      \<lparr>fr_upstream = concat (replicate 2 PADDING_FILLER)
          @ [16, 0, 0, 0, 6, 0, 0, 0, 9, 9, 9, 9, 252, 85, 101, 107], fr_seq_no = 6\<rparr>
    = MTProtoFrameStreamReader_read
      \<lparr>fr_upstream = [16, 0, 0, 0, 6, 0, 0, 0, 9, 9, 9, 9, 252, 85, 101, 107],
       fr_seq_no = 6\<rparr>
   \<and> frame_full_msg 5 [1, 2, 3, 4, 5, 6, 7, 8]
     = Inr [20, 0, 0, 0, 5, 0, 0, 0, 1, 2, 3, 4, 5, 6, 7, 8, 240, 25, 230, 28,
            4, 0, 0, 0, 4, 0, 0, 0, 4, 0, 0, 0]
   \<and> frame_full_msg (5 + 1) [9, 9, 9, 9]
     = Inr [16, 0, 0, 0, 6, 0, 0, 0, 9, 9, 9, 9, 252, 85, 101, 107]
   \<and> (\<exists>pad1 pad2.
        MTProtoFrameStreamReader_read \<lparr>fr_upstream =
            [20, 0, 0, 0, 5, 0, 0, 0, 1, 2, 3, 4, 5, 6, 7, 8, 240, 25, 230, 28,
             4, 0, 0, 0, 4, 0, 0, 0, 4, 0, 0, 0]
            @ [16, 0, 0, 0, 6, 0, 0, 0, 9, 9, 9, 9, 252, 85, 101, 107],
            fr_seq_no = 5\<rparr>
          = Inr ([1, 2, 3, 4, 5, 6, 7, 8],
             \<lparr>fr_upstream = pad1 @ [16, 0, 0, 0, 6, 0, 0, 0, 9, 9, 9, 9, 252, 85, 101, 107],
              fr_seq_no = 5 + 1\<rparr>)
        \<and> MTProtoFrameStreamReader_read
            \<lparr>fr_upstream = pad1 @ [16, 0, 0, 0, 6, 0, 0, 0, 9, 9, 9, 9, 252, 85, 101, 107],
             fr_seq_no = 5 + 1\<rparr>
          = Inr ([9, 9, 9, 9], \<lparr>fr_upstream = pad2, fr_seq_no = 5 + 2\<rparr>))"
proof -
  have f1: "frame_full_msg 5 [1, 2, 3, 4, 5, 6, 7, 8]
     = Inr [20, 0, 0, 0, 5, 0, 0, 0, 1, 2, 3, 4, 5, 6, 7, 8, 240, 25, 230, 28,
            4, 0, 0, 0, 4, 0, 0, 0, 4, 0, 0, 0]"
    by (simp add: frame_full_msg_def int_to_bytes_little_def int_to_bytes_little_signed_def
        le_bytes_4 crc_ex3 Let_def CBC_PADDING_def PADDING_FILLER_def replicate_numeral)
  have f2: "frame_full_msg (5 + 1) [9, 9, 9, 9]
     = Inr [16, 0, 0, 0, 6, 0, 0, 0, 9, 9, 9, 9, 252, 85, 101, 107]"
    by (simp add: frame_full_msg_def int_to_bytes_little_def int_to_bytes_little_signed_def
        le_bytes_4 crc_ex4 Let_def CBC_PADDING_def PADDING_FILLER_def)
  have h: "length [1, 2, 3, 4, 5, 6, 7, 8 :: byte] mod 4 = 0 \<and>
        int (length [1, 2, 3, 4, 5, 6, 7, 8 :: byte]) \<le> 2 ^ 24 - 12 \<and>
        length [9, 9, 9, 9 :: byte] mod 4 = 0 \<and> int (length [9, 9, 9, 9 :: byte]) \<le> 2 ^ 24 - 12 \<and>
        - (2 ^ 31) \<le> (5 :: int) \<and> (5 :: int) + 1 < 2 ^ 31"
    by simp
  note A = full_frame_reader_skips_padding [THEN conjunct1, rule_format,
      of 2 "[16, 0, 0, 0, 6, 0, 0, 0, 9, 9, 9, 9, 252, 85, 101, 107]" 6]
  note B = full_frame_reader_skips_padding [THEN conjunct2, rule_format,
      of "[1, 2, 3, 4, 5, 6, 7, 8]" "[9, 9, 9, 9]" 5
         "[20, 0, 0, 0, 5, 0, 0, 0, 1, 2, 3, 4, 5, 6, 7, 8, 240, 25, 230, 28,
            4, 0, 0, 0, 4, 0, 0, 0, 4, 0, 0, 0]"
         "[16, 0, 0, 0, 6, 0, 0, 0, 9, 9, 9, 9, 252, 85, 101, 107]"]
  have C: "\<exists>pad1 pad2.
        MTProtoFrameStreamReader_read \<lparr>fr_upstream =
            [20, 0, 0, 0, 5, 0, 0, 0, 1, 2, 3, 4, 5, 6, 7, 8, 240, 25, 230, 28,
             4, 0, 0, 0, 4, 0, 0, 0, 4, 0, 0, 0]
            @ [16, 0, 0, 0, 6, 0, 0, 0, 9, 9, 9, 9, 252, 85, 101, 107],
            fr_seq_no = 5\<rparr>
          = Inr ([1, 2, 3, 4, 5, 6, 7, 8],
             \<lparr>fr_upstream = pad1 @ [16, 0, 0, 0, 6, 0, 0, 0, 9, 9, 9, 9, 252, 85, 101, 107],
              fr_seq_no = 5 + 1\<rparr>)
        \<and> MTProtoFrameStreamReader_read
            \<lparr>fr_upstream = pad1 @ [16, 0, 0, 0, 6, 0, 0, 0, 9, 9, 9, 9, 252, 85, 101, 107],
             fr_seq_no = 5 + 1\<rparr>
          = Inr ([9, 9, 9, 9], \<lparr>fr_upstream = pad2, fr_seq_no = 5 + 2\<rparr>)"
    by (rule B) (use h f1 f2 in blast)
  show ?thesis
    by (intro conjI A f1 f2 C)
qed

section \<open>Misaligned writes\<close>

text \<open>Claim C10. A write whose length is not a multiple of 4 to the ABRIDGED framing
  writer or to the RPC envelope writer, and a write whose length is not a multiple of the
  block size to the obfuscation writer, returns 0 and leaves the writer and its upstream as
  they were, whatever the upstream's write method is: the upstream is not called.\<close>

theorem misaligned_writes_rejected:
  "(\<forall>upstream_write up data extra. length data mod 4 \<noteq> 0 \<longrightarrow>
       MTProtoCompactFrameStreamWriter_write upstream_write up data extra = Inr (Some 0, up))
   \<and> (\<forall>ad_tag upstream_write w msg extra. length msg mod 4 \<noteq> 0 \<longrightarrow>
       ProxyReqStreamWriter_write ad_tag upstream_write w msg extra = Inr (Some 0, w))
   \<and> (\<forall>upstream_write w data extra.
       cw_block_size w \<noteq> 0 \<and> int (length data) mod cw_block_size w \<noteq> 0 \<longrightarrow>
       CryptoWrappedStreamWriter_write upstream_write w data extra = Inr (Some 0, w))"
  by (simp add: MTProtoCompactFrameStreamWriter_write_def ProxyReqStreamWriter_write_def
      CryptoWrappedStreamWriter_write_def Let_def)

theorem misaligned_writes_rejected_witness:
  "length [1, 2, 3 :: byte] mod 4 \<noteq> 0
   \<and> MTProtoCompactFrameStreamWriter_write (\<lambda>up data extra. Inl KeyError) [9 :: byte]
        [1, 2, 3] Map.empty = Inr (Some 0, [9])
   \<and> ProxyReqStreamWriter_write [] (\<lambda>up data extra. Inl KeyError)
        \<lparr>prw_upstream = [9 :: byte], prw_remote_ip_port = [], prw_our_ip_port = [],
         prw_out_conn_id = [], prw_proto_tag = PROTO_TAG_ABRIDGED\<rparr> [1, 2, 3] Map.empty
      = Inr (Some 0, \<lparr>prw_upstream = [9], prw_remote_ip_port = [], prw_our_ip_port = [],
         prw_out_conn_id = [], prw_proto_tag = PROTO_TAG_ABRIDGED\<rparr>)
   \<and> (16 :: int) \<noteq> 0 \<and> int (length [1, 2, 3 :: byte]) mod 16 \<noteq> 0
   \<and> CryptoWrappedStreamWriter_write (\<lambda>up data extra. Inl KeyError)
        \<lparr>cw_upstream = [9 :: byte], cw_encryptor = (\<lambda>h d. d), cw_processed = [],
         cw_block_size = 16\<rparr> [1, 2, 3] Map.empty
      = Inr (Some 0, \<lparr>cw_upstream = [9], cw_encryptor = (\<lambda>h d. d), cw_processed = [],
         cw_block_size = 16\<rparr>)"
proof -
  have a: "length [1, 2, 3 :: byte] mod 4 \<noteq> 0" by simp
  have b: "cw_block_size \<lparr>cw_upstream = [9 :: byte], cw_encryptor = (\<lambda>h d. d), cw_processed = [],
         cw_block_size = 16\<rparr> \<noteq> 0 \<and> int (length [1, 2, 3 :: byte]) mod cw_block_size
       \<lparr>cw_upstream = [9 :: byte], cw_encryptor = (\<lambda>h d. d), cw_processed = [],
         cw_block_size = 16\<rparr> \<noteq> 0"
    by simp
  note t1 = misaligned_writes_rejected [THEN conjunct1, rule_format, OF a]
  note t2 = misaligned_writes_rejected [THEN conjunct2, THEN conjunct1, rule_format, OF a]
  note t3 = misaligned_writes_rejected [THEN conjunct2, THEN conjunct2, rule_format, OF b]
  show ?thesis
    by (simp add: t1 t2 t3)
qed

section \<open>RPC envelope flags\<close>

text \<open>Claim C6. An RPC envelope writer with the ABRIDGED protocol tag, given a 4-byte
  aligned payload that starts with eight zero bytes and no QUICKACK flag, computes the flags
  \<open>0x8 | 0x1000 | 0x20000 | 0x40000000 | 0x2 = 0x4002100A\<close> and writes them, little-endian,
  as bytes 4 to 8 of the envelope.\<close>

theorem proxy_req_flags_abridged_not_encrypted:
  assumes "prw_proto_tag w = PROTO_TAG_ABRIDGED"
    and "length msg mod 4 = 0"
    and "take 8 msg = replicate 8 0"
    and "\<not> extra_get extra ''QUICKACK_FLAG''"
    and "length ad_tag < 256"
  shows "proxy_req_flags (prw_proto_tag w) extra msg
           = 0x8 OR 0x1000 OR 0x20000 OR 0x40000000 OR 0x2
       \<and> proxy_req_flags (prw_proto_tag w) extra msg = 0x4002100A
       \<and> ProxyReqStreamWriter_write ad_tag StreamWriter_write w msg extra
           = Inr (None, w\<lparr>prw_upstream := prw_upstream w
                @ [0xee, 0xf1, 0xce, 0x36] @ [0x0A, 0x10, 0x02, 0x40] @ prw_out_conn_id w
                @ prw_remote_ip_port w @ prw_our_ip_port w @ [0x18, 0x00, 0x00, 0x00]
                @ [0xae, 0x26, 0x1e, 0xdb] @ [word_of_nat (length ad_tag)] @ ad_tag
                @ [0x00, 0x00, 0x00] @ msg\<rparr>)"
proof -
  have f: "proxy_req_flags (prw_proto_tag w) extra msg = 0x4002100A"
    using assms(1,3,4) by (simp add: proxy_req_flags_def Let_def)
  have o: "(0x8 OR 0x1000 OR 0x20000 OR 0x40000000 OR 0x2 :: int) = 0x4002100A"
    by simp
  have b: "int_to_bytes_little 0x4002100A 4 = Inr [0x0A, 0x10, 0x02, 0x40]"
    by (simp add: int_to_bytes_little_def le_bytes_4)
  show ?thesis
    using assms(2,5) f o b
    by (simp add: ProxyReqStreamWriter_write_def StreamWriter_write_def Let_def)
qed

theorem proxy_req_flags_abridged_not_encrypted_witness:
  "prw_proto_tag \<lparr>prw_upstream = [], prw_remote_ip_port = [1], prw_our_ip_port = [2],
         prw_out_conn_id = [3], prw_proto_tag = PROTO_TAG_ABRIDGED\<rparr> = PROTO_TAG_ABRIDGED
   \<and> length [0, 0, 0, 0, 0, 0, 0, 0, 7, 7, 7, 7 :: byte] mod 4 = 0
   \<and> take 8 [0, 0, 0, 0, 0, 0, 0, 0, 7, 7, 7, 7 :: byte] = replicate 8 0
   \<and> \<not> extra_get Map.empty ''QUICKACK_FLAG''
   \<and> length [5, 6 :: byte] < 256
   \<and> ProxyReqStreamWriter_write [5, 6] StreamWriter_write
        \<lparr>prw_upstream = [], prw_remote_ip_port = [1], prw_our_ip_port = [2],
         prw_out_conn_id = [3], prw_proto_tag = PROTO_TAG_ABRIDGED\<rparr>
        [0, 0, 0, 0, 0, 0, 0, 0, 7, 7, 7, 7] Map.empty
      = Inr (None, \<lparr>prw_upstream =
           [0xee, 0xf1, 0xce, 0x36, 0x0A, 0x10, 0x02, 0x40, 3, 1, 2, 0x18, 0, 0, 0,
            0xae, 0x26, 0x1e, 0xdb, 2, 5, 6, 0, 0, 0, 0, 0, 0, 0, 0, 0, 0, 0, 7, 7, 7, 7],
           prw_remote_ip_port = [1], prw_our_ip_port = [2],
           prw_out_conn_id = [3], prw_proto_tag = PROTO_TAG_ABRIDGED\<rparr>)"
proof -
  have h: "prw_proto_tag \<lparr>prw_upstream = ([] :: bytes), prw_remote_ip_port = [1],
         prw_our_ip_port = [2], prw_out_conn_id = [3], prw_proto_tag = PROTO_TAG_ABRIDGED\<rparr>
       = PROTO_TAG_ABRIDGED"
    "length [0, 0, 0, 0, 0, 0, 0, 0, 7, 7, 7, 7 :: byte] mod 4 = 0"
    "take 8 [0, 0, 0, 0, 0, 0, 0, 0, 7, 7, 7, 7 :: byte] = replicate 8 0"
    "\<not> extra_get Map.empty ''QUICKACK_FLAG''"
    "length [5, 6 :: byte] < 256"
    by (simp_all add: extra_get_def replicate_numeral)
  from proxy_req_flags_abridged_not_encrypted [OF h] h show ?thesis
    by simp
qed

section \<open>INTERMEDIATE length word\<close>

text \<open>Claim C7 at the length word \<open>00 00 00 80\<close>, that is \<open>L = 2^31\<close>: the claim gives
  QUICKACK and a payload of length 0, so that the read returns the empty payload and leaves
  the following bytes. The readers test \<open>L > 2^31\<close>: they set no flag and ask for
  \<open>2^31\<close> payload bytes, so on a stream that ends after four more bytes the read raises.
  With \<open>L = 2^31 + 4\<close> the flag is set and the four bytes are the payload.\<close>

theorem intermediate_reader_quickack_boundary:
  "MTProtoIntermediateFrameStreamReader_read [0x00, 0x00, 0x00, 0x80, 1, 2, 3, 4]
     = Inl IncompleteReadError
   \<and> MTProtoSecureIntermediateFrameStreamReader_read [0x00, 0x00, 0x00, 0x80, 1, 2, 3, 4]
     = Inl IncompleteReadError
   \<and> MTProtoIntermediateFrameStreamReader_read [0x04, 0x00, 0x00, 0x80, 1, 2, 3, 4]
     = Inr (([1, 2, 3, 4], Map.empty(''QUICKACK_FLAG'' \<mapsto> True)), [])
   \<and> MTProtoSecureIntermediateFrameStreamReader_read [0x04, 0x00, 0x00, 0x80, 1, 2, 3, 4]
     = Inr (([1, 2, 3, 4], Map.empty(''QUICKACK_FLAG'' \<mapsto> True)), [])"
  by (simp add: MTProtoIntermediateFrameStreamReader_read_def
      MTProtoSecureIntermediateFrameStreamReader_read_def readexactly_def Let_def)

lemma intermediate_reader_length_word:
  assumes "length lb = 4"
  shows "MTProtoIntermediateFrameStreamReader_read (lb @ rest) =
     (if int_from_bytes_little lb > 2 ^ 31
      then (case readexactly rest (nat (int_from_bytes_little lb - 2 ^ 31)) of
              Inl e \<Rightarrow> Inl e
            | Inr (data, up) \<Rightarrow> Inr ((data, Map.empty(''QUICKACK_FLAG'' \<mapsto> True)), up))
      else (case readexactly rest (nat (int_from_bytes_little lb)) of
              Inl e \<Rightarrow> Inl e
            | Inr (data, up) \<Rightarrow> Inr ((data, Map.empty), up)))"
  using assms
  by (simp add: MTProtoIntermediateFrameStreamReader_read_def Let_def)

section \<open>Middle-proxy key derivation\<close>

text \<open>Claim C5, as amended. The key and IV are the hashes the claim names of a buffer
  composed as the claim says, with this addition: when the IPv4 address of either side is
  absent or empty, both are taken as \<open>00 00 00 00\<close>. With a 16-byte MD5 and a 20-byte SHA-1
  the key has 32 bytes and the IV 16. The result is a function of the inputs alone.\<close>

theorem middleproxy_key_derivation:
  "get_middleproxy_aes_key_and_iv md5 sha1 nonce_srv nonce_clt clt_ts srv_ip clt_port purpose
       clt_ip srv_port middleproxy_secret clt_ipv6 srv_ipv6
     = (let ips = (if truthy srv_ip \<and> truthy clt_ip then (srv_ip, clt_ip)
                   else (Some [0x00, 0x00, 0x00, 0x00], Some [0x00, 0x00, 0x00, 0x00]));
            s = spec_key_material nonce_srv nonce_clt clt_ts (fst ips) clt_port purpose (snd ips)
                  srv_port middleproxy_secret clt_ipv6 srv_ipv6
        in (take 12 (md5 (drop 1 s)) @ sha1 s, md5 (drop 2 s)))
   \<and> ((\<forall>x. length (md5 x) = 16) \<and> (\<forall>x. length (sha1 x) = 20) \<longrightarrow>
        length (fst (get_middleproxy_aes_key_and_iv md5 sha1 nonce_srv nonce_clt clt_ts srv_ip
                       clt_port purpose clt_ip srv_port middleproxy_secret clt_ipv6 srv_ipv6)) = 32
        \<and> length (snd (get_middleproxy_aes_key_and_iv md5 sha1 nonce_srv nonce_clt clt_ts srv_ip
                       clt_port purpose clt_ip srv_port middleproxy_secret clt_ipv6 srv_ipv6)) = 16)"
proof -
  have m: "middleproxy_key_material nonce_srv nonce_clt clt_ts srv_ip clt_port purpose clt_ip
             srv_port middleproxy_secret clt_ipv6 srv_ipv6
         = (let ips = (if truthy srv_ip \<and> truthy clt_ip then (srv_ip, clt_ip)
                   else (Some [0x00, 0x00, 0x00, 0x00], Some [0x00, 0x00, 0x00, 0x00]))
            in spec_key_material nonce_srv nonce_clt clt_ts (fst ips) clt_port purpose (snd ips)
                  srv_port middleproxy_secret clt_ipv6 srv_ipv6)"
    by (auto simp: middleproxy_key_material_def spec_key_material_def truthy_def Let_def
        split: option.splits)
  show ?thesis
    unfolding get_middleproxy_aes_key_and_iv_def m
    by (simp add: Let_def)
qed

theorem middleproxy_key_derivation_witness:
  "(\<forall>x. length (sample_md5 x) = 16) \<and> (\<forall>x. length (sample_sha1 x) = 20)
   \<and> get_middleproxy_aes_key_and_iv sample_md5 sample_sha1 [1, 1] [2, 2] [3]
        (Some [10, 0, 0, 1]) [4] [0x43, 0x4c, 0x49, 0x45, 0x4e, 0x54] (Some [10, 0, 0, 2]) [5] [6]
        None None
      = (take 12 (sample_md5 (drop 1
            [1, 1, 2, 2, 3, 10, 0, 0, 1, 4, 0x43, 0x4c, 0x49, 0x45, 0x4e, 0x54, 10, 0, 0, 2, 5,
             6, 1, 1, 2, 2]))
         @ sample_sha1
            [1, 1, 2, 2, 3, 10, 0, 0, 1, 4, 0x43, 0x4c, 0x49, 0x45, 0x4e, 0x54, 10, 0, 0, 2, 5,
             6, 1, 1, 2, 2],
         sample_md5 (drop 2
            [1, 1, 2, 2, 3, 10, 0, 0, 1, 4, 0x43, 0x4c, 0x49, 0x45, 0x4e, 0x54, 10, 0, 0, 2, 5,
             6, 1, 1, 2, 2]))
   \<and> length (fst (get_middleproxy_aes_key_and_iv sample_md5 sample_sha1 [1, 1] [2, 2] [3]
        (Some [10, 0, 0, 1]) [4] [0x43, 0x4c, 0x49, 0x45, 0x4e, 0x54] (Some [10, 0, 0, 2]) [5] [6]
        None None)) = 32
   \<and> length (snd (get_middleproxy_aes_key_and_iv sample_md5 sample_sha1 [1, 1] [2, 2] [3]
        (Some [10, 0, 0, 1]) [4] [0x43, 0x4c, 0x49, 0x45, 0x4e, 0x54] (Some [10, 0, 0, 2]) [5] [6]
        None None)) = 16"
proof -
  have h: "(\<forall>x. length (sample_md5 x) = 16) \<and> (\<forall>x. length (sample_sha1 x) = 20)"
    by (simp add: sample_md5_def sample_sha1_def)
  note t = middleproxy_key_derivation [of sample_md5 sample_sha1 "[1, 1]" "[2, 2]" "[3]"
      "Some [10, 0, 0, 1]" "[4]" "[0x43, 0x4c, 0x49, 0x45, 0x4e, 0x54]" "Some [10, 0, 0, 2]"
      "[5]" "[6]" None None]
  have s: "spec_key_material [1, 1] [2, 2] [3] (Some [10, 0, 0, 1]) [4]
        [0x43, 0x4c, 0x49, 0x45, 0x4e, 0x54] (Some [10, 0, 0, 2]) [5] [6] None None
      = [1, 1, 2, 2, 3, 10, 0, 0, 1, 4, 0x43, 0x4c, 0x49, 0x45, 0x4e, 0x54, 10, 0, 0, 2, 5,
             6, 1, 1, 2, 2]"
    by (simp add: spec_key_material_def truthy_def)
  have tr: "truthy (Some [10, 0, 0, 1 :: byte])" "truthy (Some [10, 0, 0, 2 :: byte])"
    by (simp_all add: truthy_def)
  from t [THEN conjunct1] have a: "get_middleproxy_aes_key_and_iv sample_md5 sample_sha1
        [1, 1] [2, 2] [3]
        (Some [10, 0, 0, 1]) [4] [0x43, 0x4c, 0x49, 0x45, 0x4e, 0x54] (Some [10, 0, 0, 2]) [5] [6]
        None None
      = (take 12 (sample_md5 (drop 1
            [1, 1, 2, 2, 3, 10, 0, 0, 1, 4, 0x43, 0x4c, 0x49, 0x45, 0x4e, 0x54, 10, 0, 0, 2, 5,
             6, 1, 1, 2, 2]))
         @ sample_sha1
            [1, 1, 2, 2, 3, 10, 0, 0, 1, 4, 0x43, 0x4c, 0x49, 0x45, 0x4e, 0x54, 10, 0, 0, 2, 5,
             6, 1, 1, 2, 2],
         sample_md5 (drop 2
            [1, 1, 2, 2, 3, 10, 0, 0, 1, 4, 0x43, 0x4c, 0x49, 0x45, 0x4e, 0x54, 10, 0, 0, 2, 5,
             6, 1, 1, 2, 2]))"
    by (simp only: tr s Let_def if_True conj_absorb fst_conv snd_conv simp_thms)
  from t [THEN conjunct2, rule_format, OF h] have b:
    "length (fst (get_middleproxy_aes_key_and_iv sample_md5 sample_sha1 [1, 1] [2, 2] [3]
        (Some [10, 0, 0, 1]) [4] [0x43, 0x4c, 0x49, 0x45, 0x4e, 0x54] (Some [10, 0, 0, 2]) [5] [6]
        None None)) = 32
   \<and> length (snd (get_middleproxy_aes_key_and_iv sample_md5 sample_sha1 [1, 1] [2, 2] [3]
        (Some [10, 0, 0, 1]) [4] [0x43, 0x4c, 0x49, 0x45, 0x4e, 0x54] (Some [10, 0, 0, 2]) [5] [6]
        None None)) = 16" .
  show ?thesis using h a b by blast
qed

text \<open>Claim C5 as stated fails where the code is used over IPv6: the IPv4 addresses are
  then \<^verbatim>\<open>None\<close> and the IPv6 pair is given. The buffer the code hashes has \<open>00 00 00 00\<close> in
  the place of each IPv4 address; the concatenation of the claim has nothing there. The two
  buffers differ, and so do the IVs derived from them by a digest that tells them apart.\<close>

theorem middleproxy_key_derivation_counterexample:
  "middleproxy_key_material [1, 1] [2, 2] [3] None [4] [0x43, 0x4c, 0x49, 0x45, 0x4e, 0x54] None
      [5] [6] (Some [7]) (Some [8])
     = [1, 1, 2, 2, 3, 0, 0, 0, 0, 4, 0x43, 0x4c, 0x49, 0x45, 0x4e, 0x54, 0, 0, 0, 0, 5, 6, 1, 1,
        7, 8, 2, 2]
   \<and> spec_key_material [1, 1] [2, 2] [3] None [4] [0x43, 0x4c, 0x49, 0x45, 0x4e, 0x54] None
      [5] [6] (Some [7]) (Some [8])
     = [1, 1, 2, 2, 3, 4, 0x43, 0x4c, 0x49, 0x45, 0x4e, 0x54, 5, 6, 1, 1, 7, 8, 2, 2]
   \<and> snd (get_middleproxy_aes_key_and_iv sample_md5 sample_sha1 [1, 1] [2, 2] [3] None [4]
          [0x43, 0x4c, 0x49, 0x45, 0x4e, 0x54] None [5] [6] (Some [7]) (Some [8]))
     \<noteq> sample_md5 (drop 2 (spec_key_material [1, 1] [2, 2] [3] None [4]
          [0x43, 0x4c, 0x49, 0x45, 0x4e, 0x54] None [5] [6] (Some [7]) (Some [8])))"
proof -
  have a: "middleproxy_key_material [1, 1] [2, 2] [3] None [4]
      [0x43, 0x4c, 0x49, 0x45, 0x4e, 0x54] None [5] [6] (Some [7]) (Some [8])
     = [1, 1, 2, 2, 3, 0, 0, 0, 0, 4, 0x43, 0x4c, 0x49, 0x45, 0x4e, 0x54, 0, 0, 0, 0, 5, 6, 1, 1,
        7, 8, 2, 2]"
    by (simp add: middleproxy_key_material_def truthy_def Let_def)
  have b: "spec_key_material [1, 1] [2, 2] [3] None [4] [0x43, 0x4c, 0x49, 0x45, 0x4e, 0x54] None
      [5] [6] (Some [7]) (Some [8])
     = [1, 1, 2, 2, 3, 4, 0x43, 0x4c, 0x49, 0x45, 0x4e, 0x54, 5, 6, 1, 1, 7, 8, 2, 2]"
    by (simp add: spec_key_material_def truthy_def)
  have "int_from_bytes_little (le_bytes 16 26) \<noteq> int_from_bytes_little (le_bytes 16 18)"
    by (simp add: int_from_bytes_little_le_bytes)
  then have c: "le_bytes 16 26 \<noteq> le_bytes 16 18" by auto
  show ?thesis
    unfolding get_middleproxy_aes_key_and_iv_def a b
    using c by (simp add: sample_md5_def Let_def)
qed

end
